theory Spec2Isabelle
  imports Complex_Main "HOL-Library.AList"
begin

section \<open>Qt strings and byte arrays\<close>

text \<open>
  A \<open>QChar\<close> is a UTF-16 code unit, modelled by its numeric value; a \<open>QString\<close> is the
  list of its code units.  A \<open>QByteArray\<close> is a list of bytes, for which the 8-bit
  characters of HOL are used.  \<open>QString::fromLatin1\<close> and \<open>QLatin1String\<close> map every
  byte to the code unit of the same value.
\<close>

type_synonym QChar = nat
type_synonym QString = "QChar list"
type_synonym QByteArray = string

definition QLatin1Char :: "char \<Rightarrow> QChar" where
  "QLatin1Char c = of_char c"

definition QLatin1String :: "string \<Rightarrow> QString" where
  "QLatin1String s = map QLatin1Char s"

definition fromLatin1 :: "QByteArray \<Rightarrow> QString" where
  "fromLatin1 ba = map QLatin1Char ba"

text \<open>
  \<open>split\<close> with \<open>KeepEmptyParts\<close> cuts the text at every separator and returns all the
  pieces, so that a text without separator gives one piece (the empty text gives one empty
  piece).  \<open>SkipEmptyParts\<close> drops the empty pieces.  The separator is given as a predicate
  on characters, which covers a single character and the character class of
  \<open>QRegExp("[.|:]")\<close> alike.
\<close>

fun splitKeep :: "('a \<Rightarrow> bool) \<Rightarrow> 'a list \<Rightarrow> 'a list list" where
  "splitKeep P [] = [[]]"
| "splitKeep P (c # cs) =
     (if P c then [] # splitKeep P cs
      else (case splitKeep P cs of [] \<Rightarrow> [[c]] | w # ws \<Rightarrow> (c # w) # ws))"

definition splitSkip :: "('a \<Rightarrow> bool) \<Rightarrow> 'a list \<Rightarrow> 'a list list" where
  "splitSkip P s = filter (\<lambda>w. w \<noteq> []) (splitKeep P s)"

fun join :: "'a list \<Rightarrow> 'a list list \<Rightarrow> 'a list" where
  "join sep [] = []"
| "join sep [w] = w"
| "join sep (w # v # ws) = w @ sep @ join sep (v # ws)"

text \<open>
  \<open>QChar::isSpace\<close>: the ASCII white space, NEL, the no-break space and the separator
  categories Zs, Zl and Zp of Unicode.
\<close>

definition isSpace :: "QChar \<Rightarrow> bool" where
  "isSpace c = (c \<in> set [0x09, 0x0A, 0x0B, 0x0C, 0x0D, 0x20, 0x85, 0xA0, 0x1680,
      0x2000, 0x2001, 0x2002, 0x2003, 0x2004, 0x2005, 0x2006, 0x2007, 0x2008, 0x2009, 0x200A,
      0x2028, 0x2029, 0x202F, 0x205F, 0x3000])"

definition simplified :: "QString \<Rightarrow> QString" where
  "simplified s = join [0x20] (splitSkip isSpace s)"

definition trimmed :: "QString \<Rightarrow> QString" where
  "trimmed s = rev (dropWhile isSpace (rev (dropWhile isSpace s)))"

text \<open>
  \<open>QChar::toLower\<close> on the Latin-1 range.  Beyond it the table of Qt is larger, but no
  character outside ASCII has a lower case among the characters of \<open>[download]\<close>, the only
  text a lower-cased token is compared with.
\<close>

definition toLowerChar :: "QChar \<Rightarrow> QChar" where
  "toLowerChar c =
     (if 0x41 \<le> c \<and> c \<le> 0x5A then c + 0x20
      else if 0xC0 \<le> c \<and> c \<le> 0xDE \<and> c \<noteq> 0xD7 then c + 0x20
      else c)"

definition toLower :: "QString \<Rightarrow> QString" where
  "toLower s = map toLowerChar s"

function decimal :: "nat \<Rightarrow> QString" where
  "decimal n = (if n < 10 then [0x30 + n] else decimal (n div 10) @ [0x30 + n mod 10])"
  by pat_completeness auto
termination
  by (relation "measure (\<lambda>n. n)") auto

definition QString_number :: "int \<Rightarrow> QString" where
  "QString_number n = (if n < 0 then 0x2D # decimal (nat (- n)) else decimal (nat n))"

section \<open>StreamFormatId\<close>

record StreamFormatId =
  m_identifiers :: "QString list"

definition fromString :: "QString \<Rightarrow> StreamFormatId" where
  "fromString format_id =
     \<lparr> m_identifiers = splitSkip (\<lambda>c. c = QLatin1Char CHR ''+'') format_id \<rparr>"

definition toString :: "StreamFormatId \<Rightarrow> QString" where
  "toString fid = join [QLatin1Char CHR ''+''] (m_identifiers fid)"

definition compoundIds :: "StreamFormatId \<Rightarrow> StreamFormatId list" where
  "compoundIds fid = map fromString (m_identifiers fid)"

definition isEmpty :: "StreamFormatId \<Rightarrow> bool" where
  "isEmpty fid = (m_identifiers fid = [])"

text \<open>\<open>operator==\<close> of StreamFormatId compares the string forms.\<close>

definition eqId :: "StreamFormatId \<Rightarrow> StreamFormatId \<Rightarrow> bool" where
  "eqId a b = (toString a = toString b)"

section \<open>StreamFormat and StreamInfo\<close>

record StreamFormat =
  formatId :: StreamFormatId
  ext :: QString
  format_note :: QString
  filesize :: int
  acodec :: QString
  abr :: int
  asr :: int
  vcodec :: QString
  width :: int
  height :: int
  fps :: int
  tbr :: int

text \<open>The constructor of StreamFormat from its twelve values.\<close>

definition StreamFormat_new ::
  "QString \<Rightarrow> QString \<Rightarrow> QString \<Rightarrow> int \<Rightarrow> QString \<Rightarrow> int \<Rightarrow> int \<Rightarrow> QString \<Rightarrow> int \<Rightarrow> int \<Rightarrow> int \<Rightarrow> int
     \<Rightarrow> StreamFormat" where
  "StreamFormat_new format_id' ext' format_note' filesize' acodec' abr' asr' vcodec' width'
       height' fps' tbr' =
     \<lparr> formatId = fromString format_id', ext = ext', format_note = format_note',
       filesize = filesize', acodec = acodec', abr = abr', asr = asr', vcodec = vcodec',
       width = width', height = height', fps = fps', tbr = tbr' \<rparr>"

definition C_NONE :: QString where
  "C_NONE = QLatin1String ''none''"

definition hasVideo :: "StreamFormat \<Rightarrow> bool" where
  "hasVideo format = (vcodec format \<noteq> C_NONE)"

definition hasMusic :: "StreamFormat \<Rightarrow> bool" where
  "hasMusic format = (acodec format \<noteq> C_NONE)"

datatype Error = NoError | ErrorJsonFormat | ErrorUnavailable

text \<open>
  The fields \<open>id\<close> and \<open>_filename\<close> of the source are \<open>stream_id\<close> and \<open>filename\<close> here.
\<close>

record StreamInfo =
  stream_id :: QString
  filename :: QString
  webpage_url :: QString
  fulltitle :: QString
  defaultTitle :: QString
  defaultSuffix :: QString
  description :: QString
  thumbnail :: QString
  extractor :: QString
  extractor_key :: QString
  defaultFormatId :: StreamFormatId
  formats :: "StreamFormat list"
  playlist :: QString
  playlist_index :: QString
  m_error :: Error
  m_userTitle :: QString
  m_userSuffix :: QString
  m_userFormatId :: StreamFormatId

text \<open>The default constructor: every text empty, no format, \<open>NoError\<close>.\<close>

definition StreamInfo_new :: StreamInfo where
  "StreamInfo_new =
     \<lparr> stream_id = [], filename = [], webpage_url = [], fulltitle = [], defaultTitle = [],
       defaultSuffix = [], description = [], thumbnail = [], extractor = [],
       extractor_key = [], defaultFormatId = \<lparr> m_identifiers = [] \<rparr>, formats = [],
       playlist = [], playlist_index = [], m_error = NoError, m_userTitle = [],
       m_userSuffix = [], m_userFormatId = \<lparr> m_identifiers = [] \<rparr> \<rparr>"

definition setError :: "Error \<Rightarrow> StreamInfo \<Rightarrow> StreamInfo" where
  "setError e si = si\<lparr> m_error := e \<rparr>"

definition isAvailable :: "StreamInfo \<Rightarrow> bool" where
  "isAvailable si = (m_error si = NoError)"

text \<open>
  \<open>guestimateFullSize\<close> first fills a \<open>QMap\<close> from format id to file size, a later format
  replacing an earlier one under the same key.  The keys are ordered by \<open>operator<\<close>, which
  compares the string forms, so two keys are the same key exactly when their string forms
  are equal: the map is keyed by the string form here.
\<close>

definition sizesOf :: "StreamFormat list \<Rightarrow> (QString \<rightharpoonup> int)" where
  "sizesOf fs =
     fold (\<lambda>format sizes. sizes(toString (formatId format) \<mapsto> filesize format)) fs Map.empty"

definition guestimateFullSize :: "StreamInfo \<Rightarrow> StreamFormatId \<Rightarrow> int" where
  "guestimateFullSize si fid =
     (if isEmpty fid then - 1
      else fold (\<lambda>i estimatedSize.
                   estimatedSize + (case sizesOf (formats si) (toString i) of
                                      None \<Rightarrow> 0 | Some v \<Rightarrow> v))
             (compoundIds fid) 0)"

definition title :: "StreamInfo \<Rightarrow> QString" where
  "title si = (if m_userTitle si = [] then defaultTitle si else m_userTitle si)"

definition StreamInfo_formatId :: "StreamInfo \<Rightarrow> StreamFormatId" where
  "StreamInfo_formatId si =
     (if isEmpty (m_userFormatId si) then defaultFormatId si else m_userFormatId si)"

text \<open>
  \<open>suffix\<close>: the two nested loops, with the early \<open>return\<close> of the inner one as \<open>Inl\<close>.
\<close>

fun suffixFormats :: "StreamFormatId \<Rightarrow> StreamFormat list \<Rightarrow> QString \<Rightarrow> QString + QString" where
  "suffixFormats i [] suffix = Inr suffix"
| "suffixFormats i (format # fs) suffix =
     (if eqId i (formatId format)
      then (if hasVideo format then Inl (ext format) else suffixFormats i fs (ext format))
      else suffixFormats i fs suffix)"

fun suffixIds :: "StreamFormatId list \<Rightarrow> StreamFormat list \<Rightarrow> QString \<Rightarrow> QString" where
  "suffixIds [] fs suffix = suffix"
| "suffixIds (i # ids) fs suffix =
     (case suffixFormats i fs suffix of Inl e \<Rightarrow> e | Inr s \<Rightarrow> suffixIds ids fs s)"

definition suffixOf :: "StreamInfo \<Rightarrow> StreamFormatId \<Rightarrow> QString" where
  "suffixOf si fid =
     (if isEmpty (defaultFormatId si) then QLatin1String ''???''
      else if eqId (defaultFormatId si) fid then defaultSuffix si
      else suffixIds (compoundIds fid) (formats si) (defaultSuffix si))"

definition suffix :: "StreamInfo \<Rightarrow> QString" where
  "suffix si = (if m_userSuffix si = [] then suffixOf si (StreamInfo_formatId si) else m_userSuffix si)"

subsection \<open>File names\<close>

text \<open>
  \<open>C_LEGAL_CHARS\<close> is a \<open>QLatin1String\<close> over the bytes of the source file, which is
  encoded in UTF-8: the degree sign is the two bytes C2 and B0 there, so the text has the
  code units 0xC2 and 0xB0.
\<close>

definition C_LEGAL_CHARS :: QString where
  "C_LEGAL_CHARS = QLatin1String ''-+'' @ [0x27] @ QLatin1String '' @()[]{}'' @ [0xC2, 0xB0]
     @ QLatin1String ''#,.&''"

text \<open>
  \<open>replace(QRegExp("_+"), "_")\<close> replaces every maximal run of underscores by one
  underscore: of two adjacent underscores the first is dropped.
\<close>

fun collapseUnderscores :: "QString \<Rightarrow> QString" where
  "collapseUnderscores (a # b # r) =
     (if a = 0x5F \<and> b = 0x5F then collapseUnderscores (b # r)
      else a # collapseUnderscores (b # r))"
| "collapseUnderscores r = r"

text \<open>Two adjacent underscores somewhere in a text.\<close>

fun hasDoubleUnderscore :: "QString \<Rightarrow> bool" where
  "hasDoubleUnderscore (a # b # r) = ((a = 0x5F \<and> b = 0x5F) \<or> hasDoubleUnderscore (b # r))"
| "hasDoubleUnderscore r = False"

text \<open>
  The loop of \<open>cleanFileName\<close> rewrites the characters one by one.
  \<open>QChar::isLetterOrNumber\<close> is the table of Unicode categories of Qt; it is a parameter
  of the model.
\<close>

definition cleanChar :: "(QChar \<Rightarrow> bool) \<Rightarrow> QChar \<Rightarrow> QChar" where
  "cleanChar isLetterOrNumber c =
     (if isLetterOrNumber c \<or> c \<in> set C_LEGAL_CHARS then c
      else if c = 0x22 then 0x27
      else 0x5F)"

definition cleanFileName :: "(QChar \<Rightarrow> bool) \<Rightarrow> QString \<Rightarrow> QString" where
  "cleanFileName isLetterOrNumber fileName =
     simplified (collapseUnderscores (map (cleanChar isLetterOrNumber) (simplified fileName)))"

definition fileBaseName :: "(QChar \<Rightarrow> bool) \<Rightarrow> StreamInfo \<Rightarrow> QString" where
  "fileBaseName isLetterOrNumber si = cleanFileName isLetterOrNumber (title si)"

text \<open>
  The letters and numbers of the Latin-1 range (categories L and N of Unicode), for the
  evaluation of \<open>cleanFileName\<close> on Latin-1 texts.
\<close>

definition isLetterOrNumber_Latin1 :: "QChar \<Rightarrow> bool" where
  "isLetterOrNumber_Latin1 c =
     ((0x30 \<le> c \<and> c \<le> 0x39) \<or> (0x41 \<le> c \<and> c \<le> 0x5A) \<or> (0x61 \<le> c \<and> c \<le> 0x7A)
      \<or> c \<in> set [0xAA, 0xB2, 0xB3, 0xB5, 0xB9, 0xBA, 0xBC, 0xBD, 0xBE]
      \<or> (0xC0 \<le> c \<and> c \<le> 0xFF \<and> c \<noteq> 0xD7 \<and> c \<noteq> 0xF7))"

section \<open>The download driver (Stream)\<close>

record Stream =
  m_url :: QString
  m_outputPath :: QString
  m_referringPage :: QString
  m_selectedFormatId :: StreamFormatId
  m_bytesReceived :: int
  m_bytesReceivedCurrentSection :: int
  m_bytesTotal :: int
  m_bytesTotalCurrentSection :: int
  m_fileBaseName :: QString
  m_fileExtension :: QString

datatype StreamSignal =
  downloadProgress int int
| downloadFinished
| downloadError QString
| downloadMetadataChanged

datatype ExitStatus = NormalExit | CrashExit

definition C_EXIT_SUCCESS :: int where
  "C_EXIT_SUCCESS = 0"

definition C_DOWNLOAD_msg_header :: QString where
  "C_DOWNLOAD_msg_header = QLatin1String ''[download]''"

definition C_DOWNLOAD_next_section :: QString where
  "C_DOWNLOAD_next_section = QLatin1String ''Destination:''"

definition standardToString :: "QByteArray \<Rightarrow> QString" where
  "standardToString ba = simplified (fromLatin1 ba)"

definition clear :: "Stream \<Rightarrow> Stream" where
  "clear st = st\<lparr> m_url := [], m_outputPath := [],
     m_selectedFormatId := \<lparr> m_identifiers = [] \<rparr>,
     m_bytesReceived := 0, m_bytesReceivedCurrentSection := 0,
     m_bytesTotal := 0, m_bytesTotalCurrentSection := 0,
     m_fileBaseName := [], m_fileExtension := [] \<rparr>"

text \<open>The constructor: default members, then \<open>clear\<close>.\<close>

definition Stream_new :: Stream where
  "Stream_new = clear \<lparr> m_url = [], m_outputPath = [], m_referringPage = [],
     m_selectedFormatId = \<lparr> m_identifiers = [] \<rparr>,
     m_bytesReceived = 0, m_bytesReceivedCurrentSection = 0,
     m_bytesTotal = 0, m_bytesTotalCurrentSection = 0,
     m_fileBaseName = [], m_fileExtension = [] \<rparr>"

definition initializeWithStreamInfo :: "(QChar \<Rightarrow> bool) \<Rightarrow> Stream \<Rightarrow> StreamInfo \<Rightarrow> Stream" where
  "initializeWithStreamInfo isLetterOrNumber st streamInfo =
     st\<lparr> m_selectedFormatId := StreamInfo_formatId streamInfo,
         m_bytesReceived := 0,
         m_bytesReceivedCurrentSection := 0,
         m_bytesTotal := 0,
         m_bytesTotalCurrentSection :=
           guestimateFullSize streamInfo (StreamInfo_formatId streamInfo),
         m_fileBaseName := fileBaseName isLetterOrNumber streamInfo,
         m_fileExtension := suffix streamInfo \<rparr>"

definition setSelectedFormatId :: "StreamFormatId \<Rightarrow> Stream \<Rightarrow> Stream" where
  "setSelectedFormatId fid st = st\<lparr> m_selectedFormatId := fid \<rparr>"

definition setFileSizeInBytes :: "int \<Rightarrow> Stream \<Rightarrow> Stream" where
  "setFileSizeInBytes fileSizeInBytes st = st\<lparr> m_bytesTotal := fileSizeInBytes \<rparr>"

text \<open>\<open>_q_bytesTotal\<close> of the source.\<close>

definition q_bytesTotal :: "Stream \<Rightarrow> int" where
  "q_bytesTotal st =
     (if m_bytesTotal st > 0 then m_bytesTotal st else m_bytesTotalCurrentSection st)"

text \<open>
  The counters are \<open>qint64\<close>, and \<open>qCeil\<close> converts a \<open>double\<close> to \<open>int\<close>.  Signed
  overflow and a conversion out of the range of \<open>int\<close> are undefined behaviour in C++;
  the model stops with a fault there.  The \<open>double\<close> values are modelled by the exact
  rationals, so the rounding of the floating-point product is not modelled.
\<close>

datatype fault = IntConversionOutOfRange | Int64Overflow

definition qCeil :: "rat \<Rightarrow> fault + int" where
  "qCeil v =
     (if - (2 ^ 31) \<le> \<lceil>v\<rceil> \<and> \<lceil>v\<rceil> < 2 ^ 31 then Inr \<lceil>v\<rceil> else Inl IntConversionOutOfRange)"

definition add64 :: "int \<Rightarrow> int \<Rightarrow> fault + int" where
  "add64 a b =
     (if - (2 ^ 63) \<le> a + b \<and> a + b < 2 ^ 63 then Inr (a + b) else Inl Int64Overflow)"

text \<open>The last two lines of \<open>parseStandardOutput\<close>: the progress event of the sum.\<close>

definition emitReceived :: "Stream \<Rightarrow> fault + Stream \<times> StreamSignal list" where
  "emitReceived st =
     (case add64 (m_bytesReceived st) (m_bytesReceivedCurrentSection st) of
        Inl f \<Rightarrow> Inl f
      | Inr received \<Rightarrow> Inr (st, [downloadProgress received (q_bytesTotal st)]))"

text \<open>
  \<open>parseStandardOutput\<close>.  \<open>Format::parsePercentDecimal\<close> and \<open>Format::parseBytes\<close> are
  the parameters \<open>parsePercent\<close> and \<open>parseSize\<close>.  The result is the new state of the
  driver and the signals emitted, in order.
\<close>

definition parseStandardOutput ::
  "(QString \<Rightarrow> rat) \<Rightarrow> (QString \<Rightarrow> int) \<Rightarrow> Stream \<Rightarrow> QString
     \<Rightarrow> fault + Stream \<times> StreamSignal list" where
  "parseStandardOutput parsePercent parseSize st data =
     (let tokens = splitSkip (\<lambda>c. c = 0x20) data in
      if tokens = [] then Inr (st, [])
      else if toLower (tokens ! 0) \<noteq> C_DOWNLOAD_msg_header then Inr (st, [])
      else if length tokens > 2 \<and> tokens ! 1 = C_DOWNLOAD_next_section then
        (case add64 (m_bytesReceived st) (m_bytesReceivedCurrentSection st) of
           Inl f \<Rightarrow> Inl f
         | Inr b \<Rightarrow>
             Inr (st\<lparr> m_bytesReceived := b \<rparr>,
                  [downloadProgress b (q_bytesTotal (st\<lparr> m_bytesReceived := b \<rparr>))]))
      else if length tokens > 3 \<and> QLatin1Char CHR ''%'' \<in> set (tokens ! 1)
              \<and> tokens ! 2 = QLatin1String ''of'' then
        (let percentToken = tokens ! 1;
             sizeToken = tokens ! 3;
             percent = parsePercent percentToken
         in if percent < 0 then Inr (st, [])
            else
              (let st1 = st\<lparr> m_bytesTotalCurrentSection := parseSize sizeToken \<rparr>
               in if m_bytesTotalCurrentSection st1 < 0 then Inr (st1, [])
                  else
                    (case qCeil ((percent * of_int (m_bytesTotalCurrentSection st1)) / 100) of
                       Inl f \<Rightarrow> Inl f
                     | Inr s \<Rightarrow> emitReceived (st1\<lparr> m_bytesReceivedCurrentSection := s \<rparr>))))
      else emitReceived st)"

text \<open>
  \<open>onFinished\<close>: the signals of the terminal event.  \<open>stderrBytes\<close> is what
  \<open>readAllStandardError\<close> returns.
\<close>

definition Stream_onFinished :: "Stream \<Rightarrow> int \<Rightarrow> ExitStatus \<Rightarrow> QByteArray \<Rightarrow> StreamSignal list" where
  "Stream_onFinished st exitCode exitStatus stderrBytes =
     (if exitStatus = NormalExit then
        (if exitCode = C_EXIT_SUCCESS
         then [downloadProgress (q_bytesTotal st) (q_bytesTotal st), downloadFinished]
         else [downloadError (standardToString stderrBytes)])
      else [downloadError (QLatin1String ''The process crashed.'')])"

text \<open>
  A run of the driver: the texts read from the standard output, one call of
  \<open>parseStandardOutput\<close> each.  \<open>runTrace\<close> gives, for every text, the state after it
  and the signals it made.
\<close>

fun runTrace ::
  "(QString \<Rightarrow> rat) \<Rightarrow> (QString \<Rightarrow> int) \<Rightarrow> Stream \<Rightarrow> QString list
     \<Rightarrow> fault + (Stream \<times> StreamSignal list) list" where
  "runTrace parsePercent parseSize st [] = Inr []"
| "runTrace parsePercent parseSize st (data # rest) =
     (case parseStandardOutput parsePercent parseSize st data of
        Inl f \<Rightarrow> Inl f
      | Inr (st', sigs) \<Rightarrow>
          (case runTrace parsePercent parseSize st' rest of
             Inl f \<Rightarrow> Inl f
           | Inr tr \<Rightarrow> Inr ((st', sigs) # tr)))"

text \<open>
  The signals of a whole run: those of the texts, then those of the terminal event
  \<open>onFinished\<close>, taken in the last state.
\<close>

definition runSignals ::
  "(QString \<Rightarrow> rat) \<Rightarrow> (QString \<Rightarrow> int) \<Rightarrow> Stream \<Rightarrow> QString list \<Rightarrow> int \<Rightarrow> ExitStatus
     \<Rightarrow> QByteArray \<Rightarrow> fault + StreamSignal list" where
  "runSignals parsePercent parseSize st texts exitCode exitStatus stderrBytes =
     (case runTrace parsePercent parseSize st texts of
        Inl f \<Rightarrow> Inl f
      | Inr tr \<Rightarrow>
          Inr (concat (map snd tr)
               @ Stream_onFinished (last (st # map fst tr)) exitCode exitStatus stderrBytes))"

text \<open>The \<open>received\<close> values of the progress signals, in order.\<close>

fun receivedOf :: "StreamSignal list \<Rightarrow> int list" where
  "receivedOf [] = []"
| "receivedOf (downloadProgress received tot # sigs) = received # receivedOf sigs"
| "receivedOf (_ # sigs) = receivedOf sigs"

subsection \<open>The parsers of Format\<close>

text \<open>
  Modelled from the spec: \<open>Format::parsePercentDecimal\<close> and \<open>Format::parseBytes\<close>
  (\<open>Core/Format\<close> is not among the sources).  The spec says: the percentage is parsed as
  a decimal, accepting patterns such as \<open>1,234.5%\<close>; the size is a decimal with an SI-like
  suffix such as \<open>4.12MiB\<close>; a text that cannot be parsed gives a negative value.  These
  two functions are used to run the driver on concrete texts only; the theorems on the
  driver hold for every pair of parsers.
\<close>

definition isDigit :: "QChar \<Rightarrow> bool" where
  "isDigit c = (0x30 \<le> c \<and> c \<le> 0x39)"

text \<open>Modelled from the spec: the value of a run of decimal digits (part of the decimal parser of \<open>Format\<close>).\<close>

definition digitsValue :: "QString \<Rightarrow> nat" where
  "digitsValue ds = foldl (\<lambda>v c. 10 * v + (c - 0x30)) 0 ds"

text \<open>
  Modelled from the spec: the decimal parser of \<open>Format\<close> (absent from the sources):
  digits, then optionally a point and digits; \<open>None\<close> for every other text.
\<close>

definition parseDecimal :: "QString \<Rightarrow> rat option" where
  "parseDecimal s =
     (let ip = takeWhile (\<lambda>c. c \<noteq> QLatin1Char CHR ''.'') s;
          fp = drop 1 (dropWhile (\<lambda>c. c \<noteq> QLatin1Char CHR ''.'') s)
      in if ip \<noteq> [] \<and> list_all isDigit ip \<and> list_all isDigit fp
         then Some (of_nat (digitsValue ip) + of_nat (digitsValue fp) / of_nat (10 ^ length fp))
         else None)"

text \<open>Modelled from the spec: \<open>Format::parsePercentDecimal\<close>, see above.\<close>

definition parsePercentDecimal :: "QString \<Rightarrow> rat" where
  "parsePercentDecimal text' =
     (if QLatin1Char CHR ''%'' \<notin> set text' then - 1
      else (case parseDecimal
                  (filter (\<lambda>c. c \<noteq> QLatin1Char CHR ''%'' \<and> c \<noteq> QLatin1Char CHR '','') text') of
              None \<Rightarrow> - 1
            | Some v \<Rightarrow> v))"

text \<open>
  Modelled from the spec: the multiples of the size suffixes read by \<open>Format::parseBytes\<close>
  (absent from the sources), the binary units that the extractor prints.
\<close>

definition unitMultiple :: "QString \<Rightarrow> int option" where
  "unitMultiple u =
     (if u = QLatin1String ''B'' then Some 1
      else if u = QLatin1String ''KiB'' then Some 1024
      else if u = QLatin1String ''MiB'' then Some (1024 * 1024)
      else if u = QLatin1String ''GiB'' then Some (1024 * 1024 * 1024)
      else if u = QLatin1String ''TiB'' then Some (1024 * 1024 * 1024 * 1024)
      else None)"

text \<open>Modelled from the spec: \<open>Format::parseBytes\<close>, see above.\<close>

definition parseBytes :: "QString \<Rightarrow> int" where
  "parseBytes text' =
     (let isNum = (\<lambda>c. isDigit c \<or> c = QLatin1Char CHR ''.'' \<or> c = QLatin1Char CHR '','');
          num = filter (\<lambda>c. c \<noteq> QLatin1Char CHR '','') (takeWhile isNum text');
          unit = dropWhile isNum text'
      in case (parseDecimal num, unitMultiple unit) of
           (Some v, Some m) \<Rightarrow> \<lfloor>v * of_int m\<rfloor>
         | _ \<Rightarrow> - 1)"

subsection \<open>A concrete run\<close>

text \<open>
  A driver as the constructor leaves it, with a format selected, and the four texts of
  a download in two sections (a video track, then an audio track).
\<close>

definition freshStream :: Stream where
  "freshStream = setSelectedFormatId (fromString (QLatin1String ''137+140'')) Stream_new"

definition twoSectionTexts :: "QString list" where
  "twoSectionTexts =
     [QLatin1String ''[download] 10.0% of 100.00MiB'',
      QLatin1String ''[download] 50.0% of 100.00MiB'',
      QLatin1String ''[download] Destination: /tmp/out.m4a'',
      QLatin1String ''[download] 25.0% of 50.00MiB'']"

section \<open>The metadata collector (StreamInfoDownloader)\<close>

subsection \<open>JSON values\<close>

text \<open>
  The values of \<open>QJsonValue\<close>.  A number of JSON is a \<open>double\<close>, modelled by a rational.
  \<open>QJsonDocument::fromJson\<close> is a parameter \<open>fromJson\<close> of the model: it gives the
  document of a line, or \<open>None\<close> when \<open>QJsonParseError\<close> reports an error.
\<close>

datatype QJsonValue =
  JNull
| JBool bool
| JDouble rat
| JString QString
| JArray "QJsonValue list"
| JObject "(QString \<times> QJsonValue) list"

text \<open>\<open>QJsonDocument::object\<close> and \<open>QJsonValue::toObject\<close>: the members, none for another value.\<close>

fun toObject :: "QJsonValue \<Rightarrow> (QString \<times> QJsonValue) list" where
  "toObject (JObject members) = members"
| "toObject _ = []"

fun toArray :: "QJsonValue \<Rightarrow> QJsonValue list" where
  "toArray (JArray values) = values"
| "toArray _ = []"

text \<open>\<open>json[key]\<close>: the member of that name, an undefined value (here \<open>JNull\<close>) without it.\<close>

definition member :: "(QString \<times> QJsonValue) list \<Rightarrow> string \<Rightarrow> QJsonValue" where
  "member json key = (case map_of json (QLatin1String key) of None \<Rightarrow> JNull | Some v \<Rightarrow> v)"

fun jsonToString :: "QJsonValue \<Rightarrow> QString" where
  "jsonToString (JString s) = s"
| "jsonToString _ = []"

text \<open>\<open>toInt\<close>: the number when it is a whole number in the range of \<open>int\<close>, 0 otherwise.\<close>

fun jsonToInt :: "QJsonValue \<Rightarrow> int" where
  "jsonToInt (JDouble v) =
     (if of_int \<lfloor>v\<rfloor> = v \<and> - (2 ^ 31) \<le> \<lfloor>v\<rfloor> \<and> \<lfloor>v\<rfloor> < 2 ^ 31 then \<lfloor>v\<rfloor> else 0)"
| "jsonToInt _ = 0"

subsection \<open>Parsing the output of the two processes\<close>

definition parseFormat :: "QJsonValue \<Rightarrow> StreamFormat" where
  "parseFormat job =
     (let jobObject = toObject job in
      \<lparr> formatId = fromString (jsonToString (member jobObject ''format_id'')),
        ext = jsonToString (member jobObject ''ext''),
        format_note = jsonToString (member jobObject ''format_note''),
        filesize = jsonToInt (member jobObject ''filesize''),
        acodec = jsonToString (member jobObject ''acodec''),
        abr = jsonToInt (member jobObject ''abr''),
        asr = jsonToInt (member jobObject ''asr''),
        vcodec = jsonToString (member jobObject ''vcodec''),
        width = jsonToInt (member jobObject ''width''),
        height = jsonToInt (member jobObject ''height''),
        fps = jsonToInt (member jobObject ''fps''),
        tbr = jsonToInt (member jobObject ''tbr'') \<rparr>)"

definition parseDumpItemStdOut :: "(QByteArray \<Rightarrow> QJsonValue option) \<Rightarrow> QByteArray \<Rightarrow> StreamInfo" where
  "parseDumpItemStdOut fromJson data =
     (case fromJson data of
        None \<Rightarrow> setError ErrorJsonFormat StreamInfo_new
      | Some loadDoc \<Rightarrow>
          (let json = toObject loadDoc in
           setError NoError
             (StreamInfo_new\<lparr>
                stream_id := jsonToString (member json ''id''),
                filename := jsonToString (member json ''_filename''),
                webpage_url := jsonToString (member json ''webpage_url''),
                fulltitle := jsonToString (member json ''fulltitle''),
                defaultTitle := jsonToString (member json ''title''),
                defaultSuffix := jsonToString (member json ''ext''),
                description := jsonToString (member json ''description''),
                thumbnail := jsonToString (member json ''thumbnail''),
                extractor := jsonToString (member json ''extractor''),
                extractor_key := jsonToString (member json ''extractor_key''),
                defaultFormatId := fromString (jsonToString (member json ''format_id'')),
                formats := map parseFormat (toArray (member json ''formats'')),
                playlist := jsonToString (member json ''playlist''),
                playlist_index := jsonToString (member json ''playlist_index'') \<rparr>)))"

definition getStreamId :: "QByteArray \<Rightarrow> QString" where
  "getStreamId data =
     (let str = fromLatin1 data;
          values = splitSkip (\<lambda>c. c = QLatin1Char CHR '':'') str
      in if length values > 1 then trimmed (values ! 1) else [])"

definition parseDumpItemStdErr :: "QByteArray \<Rightarrow> StreamInfo" where
  "parseDumpItemStdErr data =
     setError ErrorUnavailable (StreamInfo_new\<lparr> stream_id := getStreamId data \<rparr>)"

text \<open>
  \<open>StreamDumpMap\<close> is a \<open>QMap\<close> from stream id to StreamInfo.  It is an association list
  with one entry for a key: \<open>insert\<close> replaces the value of a key that is present and adds
  the key otherwise (\<open>AList.update\<close>), \<open>value\<close> and \<open>contains\<close> are \<open>map_of\<close>, \<open>count\<close> is
  the length.  \<open>QByteArray::split\<close> keeps the empty parts.
\<close>

type_synonym StreamDumpMap = "(QString \<times> StreamInfo) list"

definition parseDumpMap ::
  "(QByteArray \<Rightarrow> QJsonValue option) \<Rightarrow> QByteArray \<Rightarrow> QByteArray \<Rightarrow> StreamDumpMap" where
  "parseDumpMap fromJson stdoutBytes stderrBytes =
     (let stdoutLines = splitKeep (\<lambda>c. c = CHR 0x0A) stdoutBytes;
          map1 = fold (\<lambda>stdoutLine m.
                    if stdoutLine \<noteq> []
                    then (let streamInfo = parseDumpItemStdOut fromJson stdoutLine
                          in AList.update (stream_id streamInfo) streamInfo m)
                    else m) stdoutLines [];
          stderrLines = splitKeep (\<lambda>c. c = CHR 0x0A) stderrBytes
      in fold (\<lambda>stderrLine m.
                 if stderrLine \<noteq> []
                 then (let streamInfo = parseDumpItemStdErr stderrLine
                       in AList.update (stream_id streamInfo) streamInfo m)
                 else m) stderrLines map1)"

text \<open>
  The fields \<open>_type\<close>, \<open>id\<close>, \<open>title\<close> and \<open>url\<close> of the source are \<open>item_type\<close>, \<open>item_id\<close>,
  \<open>item_title\<close> and \<open>item_url\<close> here.
\<close>

record StreamFlatListItem =
  item_type :: QString
  item_id :: QString
  ie_key :: QString
  item_title :: QString
  item_url :: QString

definition parseFlatItem :: "(QByteArray \<Rightarrow> QJsonValue option) \<Rightarrow> QByteArray \<Rightarrow> StreamFlatListItem" where
  "parseFlatItem fromJson data =
     (case fromJson data of
        None \<Rightarrow> \<lparr> item_type = [], item_id = [], ie_key = [], item_title = [], item_url = [] \<rparr>
      | Some loadDoc \<Rightarrow>
          (let json = toObject loadDoc in
           \<lparr> item_type = jsonToString (member json ''_type''),
             item_id = jsonToString (member json ''id''),
             ie_key = jsonToString (member json ''ie_key''),
             item_title = jsonToString (member json ''title''),
             item_url = jsonToString (member json ''url'') \<rparr>))"

definition parseFlatList ::
  "(QByteArray \<Rightarrow> QJsonValue option) \<Rightarrow> QByteArray \<Rightarrow> QByteArray \<Rightarrow> StreamFlatListItem list" where
  "parseFlatList fromJson stdoutBytes stderrBytes =
     fold (\<lambda>stdoutLine list.
             if stdoutLine \<noteq> []
             then (let item = parseFlatItem fromJson stdoutLine
                   in if item_id item \<noteq> [] then list @ [item] else list)
             else list)
       (splitKeep (\<lambda>c. c = CHR 0x0A) stdoutBytes) []"

subsection \<open>The collector and its processes\<close>

text \<open>
  The collector owns three processes: the dump, the flat list and, inside its
  StreamCleanCache, the cache purge.  Of a \<open>QProcess\<close> the model keeps whether its state
  is other than \<open>NotRunning\<close>.  The record holds the members of the class, and with them
  the global \<open>s_youtubedl_user_agent\<close>.
\<close>

record StreamCleanCache =
  cleanRunning :: bool
  m_isCleaned :: bool

record StreamInfoDownloader =
  dumpRunning :: bool
  flatRunning :: bool
  m_streamCleanCache :: StreamCleanCache
  m_infoUrl :: QString
  m_cancelled :: bool
  m_dumpMap :: StreamDumpMap
  m_flatList :: "StreamFlatListItem list"
  s_youtubedl_user_agent :: QString

datatype process = ProcessDumpJson | ProcessFlatList | ProcessCleanCache

text \<open>
  What a slot does to the outside: it starts or kills a process, or emits a signal
  (\<open>error\<close> and \<open>collected\<close> of the collector, \<open>done\<close> of the StreamCleanCache).
\<close>

datatype effect =
  Start process "QString list"
| Kill process
| EmitError QString
| EmitCollected "StreamInfo list"
| EmitDone

definition StreamInfoDownloader_new :: "QString \<Rightarrow> StreamInfoDownloader" where
  "StreamInfoDownloader_new userAgent =
     \<lparr> dumpRunning = False, flatRunning = False,
       m_streamCleanCache = \<lparr> cleanRunning = False, m_isCleaned = False \<rparr>,
       m_infoUrl = [], m_cancelled = False, m_dumpMap = [], m_flatList = [],
       s_youtubedl_user_agent = userAgent \<rparr>"

definition userAgentArguments :: "StreamInfoDownloader \<Rightarrow> QString list" where
  "userAgentArguments d =
     (if s_youtubedl_user_agent d \<noteq> []
      then [QLatin1String ''--user-agent'', s_youtubedl_user_agent d] else [])"

definition runAsyncDumpJson :: "StreamInfoDownloader \<Rightarrow> StreamInfoDownloader \<times> effect list" where
  "runAsyncDumpJson d =
     (if \<not> dumpRunning d
      then (d\<lparr> dumpRunning := True \<rparr>,
            [Start ProcessDumpJson
               ([QLatin1String ''--dump-json'', QLatin1String ''--yes-playlist'',
                 QLatin1String ''--no-color'', QLatin1String ''--no-check-certificate'',
                 QLatin1String ''--ignore-config'', QLatin1String ''--ignore-errors'',
                 m_infoUrl d] @ userAgentArguments d)])
      else (d, []))"

definition runAsyncFlatList :: "StreamInfoDownloader \<Rightarrow> StreamInfoDownloader \<times> effect list" where
  "runAsyncFlatList d =
     (if \<not> flatRunning d
      then (d\<lparr> flatRunning := True \<rparr>,
            [Start ProcessFlatList
               ([QLatin1String ''--dump-json'', QLatin1String ''--flat-playlist'',
                 QLatin1String ''--yes-playlist'', QLatin1String ''--no-color'',
                 QLatin1String ''--no-check-certificate'', QLatin1String ''--ignore-config'',
                 QLatin1String ''--ignore-errors'', m_infoUrl d] @ userAgentArguments d)])
      else (d, []))"

definition runAsync :: "QString \<Rightarrow> StreamInfoDownloader \<Rightarrow> StreamInfoDownloader \<times> effect list" where
  "runAsync url d =
     (let d0 = d\<lparr> m_infoUrl := url, m_cancelled := False, m_dumpMap := [], m_flatList := [] \<rparr>;
          (d1, es1) = runAsyncDumpJson d0;
          (d2, es2) = runAsyncFlatList d1
      in (d2, es1 @ es2))"

text \<open>\<open>kill\<close> asks the process to end; its state changes when it has ended.\<close>

definition stop :: "StreamInfoDownloader \<Rightarrow> StreamInfoDownloader \<times> effect list" where
  "stop d =
     (d\<lparr> m_dumpMap := [], m_flatList := [], m_cancelled := True \<rparr>,
      (if dumpRunning d then [Kill ProcessDumpJson] else [])
      @ (if flatRunning d then [Kill ProcessFlatList] else []))"

definition onError :: "StreamInfoDownloader \<Rightarrow> StreamInfoDownloader \<times> effect list" where
  "onError d = (d\<lparr> m_dumpMap := [], m_flatList := [] \<rparr>, [])"

definition createStreamInfo :: "StreamInfoDownloader \<Rightarrow> StreamFlatListItem \<Rightarrow> StreamInfo" where
  "createStreamInfo d flatItem =
     (let si0 = (if item_id flatItem \<noteq> [] \<and> map_of (m_dumpMap d) (item_id flatItem) \<noteq> None
                 then the (map_of (m_dumpMap d) (item_id flatItem))
                 else setError ErrorUnavailable StreamInfo_new);
          si1 = (if defaultTitle si0 = [] then si0\<lparr> defaultTitle := item_title flatItem \<rparr>
                 else si0);
          si2 = (if webpage_url si1 = [] then si1\<lparr> webpage_url := item_url flatItem \<rparr>
                 else si1)
      in si2)"

text \<open>
  The loop of \<open>onFinished\<close>, with its counter \<open>playlist_index\<close> (an \<open>int\<close>; a list of flat
  items is far shorter than its range).
\<close>

fun collectLoop :: "StreamInfoDownloader \<Rightarrow> int \<Rightarrow> StreamFlatListItem list \<Rightarrow> StreamInfo list" where
  "collectLoop d index [] = []"
| "collectLoop d index (flatItem # rest) =
     (createStreamInfo d flatItem)\<lparr> playlist_index := QString_number (index + 1) \<rparr>
       # collectLoop d (index + 1) rest"

definition onFinished :: "StreamInfoDownloader \<Rightarrow> effect list" where
  "onFinished d =
     (if m_cancelled d then [EmitError (QLatin1String ''Cancelled.'')]
      else if m_dumpMap d \<noteq> [] \<and> m_flatList d \<noteq> []
      then [EmitCollected (collectLoop d 0 (m_flatList d))]
      else [])"

definition StreamCleanCache_runAsync :: "StreamCleanCache \<Rightarrow> StreamCleanCache \<times> effect list" where
  "StreamCleanCache_runAsync c =
     (if \<not> cleanRunning c
      then (c\<lparr> cleanRunning := True \<rparr>,
            [Start ProcessCleanCache [QLatin1String ''--no-color'', QLatin1String ''--rm-cache-dir'']])
      else (c, []))"

definition onFinishedDumpJson ::
  "(QByteArray \<Rightarrow> QJsonValue option) \<Rightarrow> StreamInfoDownloader \<Rightarrow> int \<Rightarrow> ExitStatus \<Rightarrow> QByteArray
     \<Rightarrow> QByteArray \<Rightarrow> StreamInfoDownloader \<times> effect list" where
  "onFinishedDumpJson fromJson d exitCode exitStatus stdoutBytes stderrBytes =
     (if exitStatus = NormalExit then
        (let d1 = d\<lparr> m_dumpMap := parseDumpMap fromJson stdoutBytes stderrBytes \<rparr>;
             isPlaylist = (length (m_dumpMap d1) > 1)
         in if exitCode \<noteq> C_EXIT_SUCCESS \<and> \<not> m_isCleaned (m_streamCleanCache d1) \<and> \<not> isPlaylist
            then (let (d2, es) = stop d1;
                      (c, cs) = StreamCleanCache_runAsync (m_streamCleanCache d2)
                  in (d2\<lparr> m_streamCleanCache := c \<rparr>, es @ cs))
            else if m_dumpMap d1 \<noteq> [] then (d1, onFinished d1)
            else (d1, [EmitError (QLatin1String ''Couldn'' @ [0x27]
                                   @ QLatin1String ''t parse JSON file.'')]))
      else (d, [EmitError (QLatin1String ''The process crashed.'')]))"

definition onFinishedFlatList ::
  "(QByteArray \<Rightarrow> QJsonValue option) \<Rightarrow> StreamInfoDownloader \<Rightarrow> int \<Rightarrow> ExitStatus \<Rightarrow> QByteArray
     \<Rightarrow> QByteArray \<Rightarrow> StreamInfoDownloader \<times> effect list" where
  "onFinishedFlatList fromJson d exitCode exitStatus stdoutBytes stderrBytes =
     (if exitStatus = NormalExit then
        (if exitCode = C_EXIT_SUCCESS then
           (let d1 = d\<lparr> m_flatList := parseFlatList fromJson stdoutBytes stderrBytes \<rparr>
            in if m_flatList d1 \<noteq> [] then (d1, onFinished d1)
               else (d1, [EmitError (QLatin1String ''Couldn'' @ [0x27]
                            @ QLatin1String ''t parse playlist (no data received).'')]))
         else (d, [EmitError (QLatin1String ''Couldn'' @ [0x27]
                      @ QLatin1String ''t parse playlist (ill-formed JSON file).'')]))
      else (d, [EmitError (QLatin1String ''The process crashed.'')]))"

text \<open>
  \<open>StreamCleanCache::onFinished\<close> sets the flag whatever the exit code and the exit status
  are, and emits \<open>done\<close>; the collector's slot \<open>onCacheCleaned\<close> is connected to \<open>done\<close> and
  calls \<open>runAsync\<close> with the stored url.
\<close>

definition onCacheCleaned :: "StreamInfoDownloader \<Rightarrow> StreamInfoDownloader \<times> effect list" where
  "onCacheCleaned d = runAsync (m_infoUrl d) d"

definition StreamCleanCache_onFinished ::
  "StreamInfoDownloader \<Rightarrow> int \<Rightarrow> ExitStatus \<Rightarrow> StreamInfoDownloader \<times> effect list" where
  "StreamCleanCache_onFinished d exitCode exitStatus =
     (let d1 = d\<lparr> m_streamCleanCache := (m_streamCleanCache d)\<lparr> m_isCleaned := True \<rparr> \<rparr>;
          (d2, es) = onCacheCleaned d1
      in (d2, EmitDone # es))"

subsection \<open>The events of a collector's lifetime\<close>

text \<open>
  The collector is driven by the calls of its owner (\<open>runAsync\<close>, \<open>stop\<close>) and by the
  signals of its processes.  A process that is not running sends no signal.  When a
  process has finished, its state is \<open>NotRunning\<close> before the slot runs; a process that
  fails to start reports the error \<open>FailedToStart\<close>, returns to \<open>NotRunning\<close> and never
  sends \<open>finished\<close>.  The error slot of the StreamCleanCache only writes a log.
\<close>

datatype ProcessError = FailedToStart | Crashed | Timedout | WriteError | ReadError | UnknownError

datatype event =
  CallRunAsync QString
| CallStop
| Finished process int ExitStatus QByteArray QByteArray
| ErrorOccurred process ProcessError

definition isRunning :: "StreamInfoDownloader \<Rightarrow> process \<Rightarrow> bool" where
  "isRunning d p =
     (case p of
        ProcessDumpJson \<Rightarrow> dumpRunning d
      | ProcessFlatList \<Rightarrow> flatRunning d
      | ProcessCleanCache \<Rightarrow> cleanRunning (m_streamCleanCache d))"

definition setNotRunning :: "process \<Rightarrow> StreamInfoDownloader \<Rightarrow> StreamInfoDownloader" where
  "setNotRunning p d =
     (case p of
        ProcessDumpJson \<Rightarrow> d\<lparr> dumpRunning := False \<rparr>
      | ProcessFlatList \<Rightarrow> d\<lparr> flatRunning := False \<rparr>
      | ProcessCleanCache \<Rightarrow>
          d\<lparr> m_streamCleanCache := (m_streamCleanCache d)\<lparr> cleanRunning := False \<rparr> \<rparr>)"

definition step ::
  "(QByteArray \<Rightarrow> QJsonValue option) \<Rightarrow> StreamInfoDownloader \<Rightarrow> event
     \<Rightarrow> StreamInfoDownloader \<times> effect list" where
  "step fromJson d ev =
     (case ev of
        CallRunAsync url \<Rightarrow> runAsync url d
      | CallStop \<Rightarrow> stop d
      | Finished p exitCode exitStatus stdoutBytes stderrBytes \<Rightarrow>
          (if \<not> isRunning d p then (d, [])
           else (case p of
                   ProcessDumpJson \<Rightarrow>
                     onFinishedDumpJson fromJson (setNotRunning p d) exitCode exitStatus
                       stdoutBytes stderrBytes
                 | ProcessFlatList \<Rightarrow>
                     onFinishedFlatList fromJson (setNotRunning p d) exitCode exitStatus
                       stdoutBytes stderrBytes
                 | ProcessCleanCache \<Rightarrow>
                     StreamCleanCache_onFinished (setNotRunning p d) exitCode exitStatus))
      | ErrorOccurred p err \<Rightarrow>
          (if \<not> isRunning d p then (d, [])
           else (let d1 = (if err = FailedToStart then setNotRunning p d else d)
                 in if p = ProcessCleanCache then (d1, []) else onError d1)))"

fun run ::
  "(QByteArray \<Rightarrow> QJsonValue option) \<Rightarrow> StreamInfoDownloader \<Rightarrow> event list
     \<Rightarrow> StreamInfoDownloader \<times> effect list" where
  "run fromJson d [] = (d, [])"
| "run fromJson d (ev # evs) =
     (let (d1, es1) = step fromJson d ev;
          (d2, es2) = run fromJson d1 evs
      in (d2, es1 @ es2))"

text \<open>How often the purge was started and how often \<open>done\<close> was emitted.\<close>

definition purgeStarts :: "effect list \<Rightarrow> nat" where
  "purgeStarts es = length (filter (\<lambda>e. case e of Start p args \<Rightarrow> p = ProcessCleanCache | _ \<Rightarrow> False) es)"

definition doneCount :: "effect list \<Rightarrow> nat" where
  "doneCount es = length (filter (\<lambda>e. e = EmitDone) es)"

text \<open>
  \<open>m_streamCleanCache->isCleaned()\<close>, and whether the purge process is running.
\<close>

abbreviation isCleaned :: "StreamInfoDownloader \<Rightarrow> bool" where
  "isCleaned d \<equiv> m_isCleaned (m_streamCleanCache d)"

abbreviation purgeRunning :: "StreamInfoDownloader \<Rightarrow> bool" where
  "purgeRunning d \<equiv> cleanRunning (m_streamCleanCache d)"

text \<open>The flag is set only when the purge process has finished.\<close>

definition cleanInv :: "StreamInfoDownloader \<Rightarrow> bool" where
  "cleanInv d = (isCleaned d \<longrightarrow> \<not> purgeRunning d)"

text \<open>The purge process is running or has finished.\<close>

definition purgeUsed :: "StreamInfoDownloader \<Rightarrow> bool" where
  "purgeUsed d = (purgeRunning d \<or> isCleaned d)"

text \<open>
  A lifetime in which the purge process fails to start: the flag stays unset, no \<open>done\<close>
  is emitted, and a later failing dump (after the owner has called \<open>runAsync\<close> again)
  starts the purge a second time.
\<close>

definition startFailureLifetime :: "event list" where
  "startFailureLifetime =
     [CallRunAsync (QLatin1String ''https://example.org/v''),
      Finished ProcessDumpJson 1 NormalExit [] [],
      ErrorOccurred ProcessCleanCache FailedToStart,
      Finished ProcessFlatList 0 CrashExit [] [],
      CallRunAsync (QLatin1String ''https://example.org/v''),
      Finished ProcessDumpJson 1 NormalExit [] []]"

text \<open>
  A lifetime with a failing dump: the owner calls \<open>runAsync\<close>; the dump exits with code 1
  and no output, so the purge is started and the flat list is killed; the flat list ends
  as crashed; the purge crashes; the dump, started again, exits with code 1 and no
  output once more.
\<close>

definition sampleUrl :: QString where
  "sampleUrl = QLatin1String ''https://example.org/v''"

definition failingLifetime :: "event list" where
  "failingLifetime =
     [CallRunAsync sampleUrl,
      Finished ProcessDumpJson 1 NormalExit [] [],
      Finished ProcessFlatList 0 CrashExit [] [],
      Finished ProcessCleanCache 1 CrashExit [] [],
      Finished ProcessDumpJson 1 NormalExit [] []]"

subsection \<open>The reconciliation in the words of the spec\<close>

text \<open>
  The StreamInfo for the flat item at the 1-based position \<open>i\<close>, as the spec words it: the
  entry of the dump map for the id of the item when there is one, else a stub with the
  error \<open>Unavailable\<close>; an empty \<open>defaultTitle\<close> is filled from the title of the item, an
  empty \<open>webpage_url\<close> from its url; \<open>playlist_index\<close> is the position.
\<close>

definition reconciled :: "StreamDumpMap \<Rightarrow> StreamFlatListItem \<Rightarrow> nat \<Rightarrow> StreamInfo" where
  "reconciled dumpMap item i =
     (let base = (case map_of dumpMap (item_id item) of
                    Some si \<Rightarrow> si
                  | None \<Rightarrow> setError ErrorUnavailable StreamInfo_new)
      in base\<lparr> defaultTitle := (if defaultTitle base = [] then item_title item
                                 else defaultTitle base),
               webpage_url := (if webpage_url base = [] then item_url item
                                else webpage_url base),
               playlist_index := QString_number (int i) \<rparr>)"

subsection \<open>A parser for lines of string members\<close>

text \<open>
  For runs of the collector on concrete lines: a parser for the JSON objects of the form
  \<open>{"k":"v",...}\<close>, with at least one member, all members strings of ASCII characters
  without quote, comma, colon or escape, and no white space.  Every other line is a
  parse error for it.  The theorems on the collector hold for every \<open>fromJson\<close>.
\<close>

definition quoted :: "string \<Rightarrow> string" where
  "quoted s = CHR 0x22 # s @ [CHR 0x22]"

definition unquote :: "string \<Rightarrow> string option" where
  "unquote s =
     (if length s \<ge> 2 \<and> hd s = CHR 0x22 \<and> last s = CHR 0x22 \<and> CHR 0x22 \<notin> set (butlast (tl s))
      then Some (butlast (tl s)) else None)"

definition parseMember :: "string \<Rightarrow> (QString \<times> QJsonValue) option" where
  "parseMember m =
     (case splitKeep (\<lambda>c. c = CHR '':'') m of
        [k, v] \<Rightarrow>
          (case (unquote k, unquote v) of
             (Some k', Some v') \<Rightarrow> Some (fromLatin1 k', JString (fromLatin1 v'))
           | _ \<Rightarrow> None)
      | _ \<Rightarrow> None)"

definition fromJsonStrings :: "QByteArray \<Rightarrow> QJsonValue option" where
  "fromJsonStrings data =
     (if length data \<ge> 2 \<and> hd data = CHR ''{'' \<and> last data = CHR ''}''
         \<and> list_all (\<lambda>c. (of_char c :: nat) < 128) data
      then (let members = map parseMember (splitKeep (\<lambda>c. c = CHR '','') (butlast (tl data)))
            in if list_all (\<lambda>m. m \<noteq> None) members \<and> distinct (map (\<lambda>m. fst (the m)) members)
               then Some (JObject (map the members)) else None)
      else None)"

text \<open>
  The output of the two processes for a playlist of three items \<open>a\<close>, \<open>b\<close> and \<open>c\<close>, of
  which \<open>b\<close> is not available.
\<close>

definition jsonLine :: "(string \<times> string) list \<Rightarrow> string" where
  "jsonLine members =
     ''{'' @ join '','' (map (\<lambda>(k, v). quoted k @ '':'' @ quoted v) members) @ ''}''"

definition playlistDumpStdout :: QByteArray where
  "playlistDumpStdout =
     jsonLine [(''id'', ''a''), (''title'', ''First''), (''ext'', ''mp4'')] @ [CHR 0x0A]
     @ jsonLine [(''id'', ''c''), (''title'', ''Third''), (''ext'', ''mp4'')] @ [CHR 0x0A]"

definition playlistDumpStderr :: QByteArray where
  "playlistDumpStderr = ''ERROR: b: Video unavailable'' @ [CHR 0x0A]"

definition playlistFlatStdout :: QByteArray where
  "playlistFlatStdout =
     jsonLine [(''id'', ''a''), (''title'', ''First''), (''url'', ''ua'')] @ [CHR 0x0A]
     @ jsonLine [(''id'', ''b''), (''title'', ''Second''), (''url'', ''ub'')] @ [CHR 0x0A]
     @ jsonLine [(''id'', ''c''), (''title'', ''Third''), (''url'', ''uc'')] @ [CHR 0x0A]"

section \<open>Host matching\<close>

text \<open>
  \<open>QString::compare(domain, mandatory, Qt::CaseInsensitive) == 0\<close> is the parameter
  \<open>sameNoCase\<close>.  The two loops of \<open>matches\<close> are \<open>list_all\<close> over the mandatory
  domains and \<open>list_ex\<close> over the domains of the host.
\<close>

definition matches :: "(QString \<Rightarrow> QString \<Rightarrow> bool) \<Rightarrow> QString \<Rightarrow> QString \<Rightarrow> bool" where
  "matches sameNoCase host regexHost =
     (let domains = splitSkip (\<lambda>c. c = QLatin1Char CHR ''.'') host;
          mandatoryDomains =
            splitSkip (\<lambda>c. c \<in> set (QLatin1String ''.|:'')) regexHost
      in list_all (\<lambda>mandatory. list_ex (\<lambda>domain. sameNoCase domain mandatory) domains)
           mandatoryDomains)"

definition matchesHost :: "(QString \<Rightarrow> QString \<Rightarrow> bool) \<Rightarrow> QString \<Rightarrow> QString list \<Rightarrow> bool" where
  "matchesHost sameNoCase host regexHosts = list_ex (matches sameNoCase host) regexHosts"

text \<open>Equality up to the case of the Latin-1 letters, for evaluation on Latin-1 hosts.\<close>

definition sameNoCase_Latin1 :: "QString \<Rightarrow> QString \<Rightarrow> bool" where
  "sameNoCase_Latin1 a b = (toLower a = toLower b)"

section \<open>Verification\<close>

subsection \<open>Splitting and joining\<close>

lemma splitKeep_not_Nil: "splitKeep P s \<noteq> []"
  by (induction s) (auto split: list.splits)

lemma splitKeep_free: "\<forall>w\<in>set (splitKeep P s). \<forall>c\<in>set w. \<not> P c"
  by (induction s) (auto split: list.splits)

lemma splitSkip_word: "w \<in> set (splitSkip P s) \<Longrightarrow> w \<noteq> [] \<and> (\<forall>c\<in>set w. \<not> P c)"
  using splitKeep_free[of P s] by (auto simp: splitSkip_def)

lemma splitKeep_word: "\<forall>c\<in>set w. \<not> P c \<Longrightarrow> splitKeep P w = [w]"
  by (induction w) auto

lemma splitKeep_append_sep:
  "\<forall>c\<in>set w. \<not> P c \<Longrightarrow> P sep \<Longrightarrow> splitKeep P (w @ sep # r) = w # splitKeep P r"
  by (induction w) auto

lemma splitKeep_join:
  "P sep \<Longrightarrow> \<forall>w\<in>set ws. \<forall>c\<in>set w. \<not> P c \<Longrightarrow> ws \<noteq> [] \<Longrightarrow>
     splitKeep P (join [sep] ws) = ws"
proof (induction ws rule: induct_list012)
  case 1
  then show ?case by simp
next
  case (2 w)
  then show ?case by (simp add: splitKeep_word)
next
  case (3 w v ws)
  then show ?case by (simp add: splitKeep_append_sep)
qed

lemma splitSkip_join:
  assumes "P sep" and "\<forall>w\<in>set ws. w \<noteq> [] \<and> (\<forall>c\<in>set w. \<not> P c)"
  shows "splitSkip P (join [sep] ws) = ws"
proof (cases "ws = []")
  case True
  then show ?thesis by (simp add: splitSkip_def)
next
  case False
  with assms have "splitKeep P (join [sep] ws) = ws"
    by (intro splitKeep_join) auto
  moreover from assms(2) have "filter (\<lambda>w. w \<noteq> []) ws = ws"
    by (induction ws) auto
  ultimately show ?thesis by (simp add: splitSkip_def)
qed

lemma set_join: "set (join sep ws) \<subseteq> set sep \<union> \<Union> (set ` set ws)"
  by (induction sep ws rule: join.induct) auto

lemma set_splitKeep: "\<forall>w\<in>set (splitKeep P s). set w \<subseteq> set s"
  by (induction s) (auto split: list.splits)

lemma set_splitSkip: "w \<in> set (splitSkip P s) \<Longrightarrow> set w \<subseteq> set s"
  using set_splitKeep[of P s] by (auto simp: splitSkip_def)

lemma splitSkip_atom:
  assumes "a \<noteq> []" and "\<forall>c\<in>set a. \<not> P c"
  shows "splitSkip P a = [a]"
  using assms by (simp add: splitSkip_def splitKeep_word)

lemma splitSkip_idem:
  assumes "P sep"
  shows "splitSkip P (join [sep] (splitSkip P s)) = splitSkip P s"
proof -
  have "\<forall>w\<in>set (splitSkip P s). w \<noteq> [] \<and> (\<forall>c\<in>set w. \<not> P c)"
    using splitSkip_word[of _ P s] by blast
  with assms show ?thesis by (rule splitSkip_join)
qed

lemma fromString_toString: "fromString (toString (fromString s)) = fromString s"
  unfolding fromString_def toString_def
  by (simp add: splitSkip_idem)

lemma compoundIds_toString:
  "map toString (compoundIds (fromString s)) = m_identifiers (fromString s)"
proof -
  have "toString (fromString a) = a" if "a \<in> set (m_identifiers (fromString s))" for a
  proof -
    from that have "a \<noteq> [] \<and> (\<forall>c\<in>set a. \<not> c = QLatin1Char CHR ''+'')"
      using splitSkip_word[of a "\<lambda>c. c = QLatin1Char CHR ''+''" s]
      by (simp add: fromString_def)
    then have "splitSkip (\<lambda>c. c = QLatin1Char CHR ''+'') a = [a]"
      by (intro splitSkip_atom) auto
    then show ?thesis by (simp add: toString_def fromString_def)
  qed
  then show ?thesis
    by (simp add: compoundIds_def map_idI)
qed

lemma set_toString_fromString: "set (toString (fromString s)) \<subseteq> set s"
proof
  fix c assume "c \<in> set (toString (fromString s))"
  then have "c \<in> set [QLatin1Char CHR ''+''] \<union> \<Union> (set ` set (splitSkip (\<lambda>c. c = QLatin1Char CHR ''+'') s))"
    using set_join[of "[QLatin1Char CHR ''+'']" "splitSkip (\<lambda>c. c = QLatin1Char CHR ''+'') s"]
    by (auto simp: toString_def fromString_def)
  then consider "c = QLatin1Char CHR ''+''" "c \<in> set (toString (fromString s))"
    | w where "w \<in> set (splitSkip (\<lambda>c. c = QLatin1Char CHR ''+'') s)" "c \<in> set w"
    using \<open>c \<in> set (toString (fromString s))\<close> by auto
  then show "c \<in> set s"
  proof cases
    case 1
    show ?thesis
    proof (rule ccontr)
      assume "c \<notin> set s"
      with 1 have "\<forall>d\<in>set s. \<not> d = QLatin1Char CHR ''+''" by auto
      then have "splitKeep (\<lambda>c. c = QLatin1Char CHR ''+'') s = [s]"
        by (rule splitKeep_word)
      then have "toString (fromString s) = s"
        by (simp add: toString_def fromString_def splitSkip_def)
      with 1 \<open>c \<notin> set s\<close> show False by simp
    qed
  next
    case 2
    then show ?thesis using set_splitSkip by fastforce
  qed
qed


subsection \<open>StreamFormatId: round trip and shape of the string form\<close>

text \<open>
  Claim C7.  The identifier list of a StreamFormatId is private and written by
  \<open>fromString\<close> only (the constructor calls it), so every StreamFormatId is
  \<open>fromString s\<close> for some text \<open>s\<close>.  For every such id, parsing its string form gives
  the id back (the same identifier list, hence equal under \<open>operator==\<close>), and the string
  forms of its \<open>compoundIds\<close>, joined with \<open>+\<close>, give its string form.
\<close>

theorem formatId_roundtrip: "fromString (toString (fromString s)) = fromString s
   \<and> eqId (fromString (toString (fromString s))) (fromString s)
   \<and> join [QLatin1Char CHR ''+''] (map toString (compoundIds (fromString s))) = toString (fromString s)"
  by (simp add: fromString_toString eqId_def compoundIds_toString) (simp add: toString_def)

theorem formatId_roundtrip_witness:
  "fromString (toString (fromString (QLatin1String ''137++251+''))) = fromString (QLatin1String ''137++251+'')
   \<and> eqId (fromString (toString (fromString (QLatin1String ''137++251+'')))) (fromString (QLatin1String ''137++251+''))
   \<and> join [QLatin1Char CHR ''+''] (map toString (compoundIds (fromString (QLatin1String ''137++251+''))))
       = QLatin1String ''137+251''"
  using formatId_roundtrip[of "QLatin1String ''137++251+''"]
  by (simp add: toString_def fromString_def QLatin1String_def QLatin1Char_def splitSkip_def)

text \<open>
  Claim C8, as stated, fails: \<open>fromString\<close> splits on \<open>+\<close> only and keeps white space
  inside the atoms, so the string form of the id made from \<open>a b\<close> contains a space.
\<close>

theorem formatId_whitespace_counterexample:
  "\<not> (\<forall>c \<in> set (toString (fromString (QLatin1String ''a b''))). \<not> isSpace c)"
  by (simp add: toString_def fromString_def QLatin1String_def QLatin1Char_def splitSkip_def isSpace_def)

text \<open>
  Claim C8, amended.  For every input text, the atoms of the id are non-empty and free of
  \<open>+\<close>, and the string form is these atoms joined by \<open>+\<close>: every \<open>+\<close> of the string form
  separates two atoms.  The string form has only characters of the input, so it is free
  of white space whenever the input is.
\<close>

theorem formatId_plus_only_separator: "(\<forall>a \<in> set (m_identifiers (fromString s)). a \<noteq> [] \<and> QLatin1Char CHR ''+'' \<notin> set a)
   \<and> toString (fromString s) = join [QLatin1Char CHR ''+''] (m_identifiers (fromString s))
   \<and> set (toString (fromString s)) \<subseteq> set s
   \<and> ((\<forall>c\<in>set s. \<not> isSpace c) \<longrightarrow> (\<forall>c\<in>set (toString (fromString s)). \<not> isSpace c))"
proof -
  have "a \<noteq> [] \<and> QLatin1Char CHR ''+'' \<notin> set a" if "a \<in> set (m_identifiers (fromString s))" for a
    using that splitSkip_word[of a "\<lambda>c. c = QLatin1Char CHR ''+''" s]
    by (auto simp: fromString_def)
  moreover have "toString (fromString s) = join [QLatin1Char CHR ''+''] (m_identifiers (fromString s))"
    by (simp add: toString_def)
  moreover note set_toString_fromString[of s]
  ultimately show ?thesis by blast
qed

theorem formatId_plus_only_separator_witness:
  "m_identifiers (fromString (QLatin1String ''+137++251'')) = [QLatin1String ''137'', QLatin1String ''251'']
   \<and> toString (fromString (QLatin1String ''+137++251'')) = QLatin1String ''137+251''
   \<and> \<not> list_ex isSpace (QLatin1String ''+137++251'')
   \<and> \<not> list_ex isSpace (toString (fromString (QLatin1String ''+137++251'')))"
proof -
  have src: "\<forall>c\<in>set (QLatin1String ''+137++251''). \<not> isSpace c"
    by (simp add: QLatin1String_def QLatin1Char_def isSpace_def)
  with formatId_plus_only_separator[of "QLatin1String ''+137++251''"]
  have "\<forall>c\<in>set (toString (fromString (QLatin1String ''+137++251''))). \<not> isSpace c"
    by blast
  then have "\<not> list_ex isSpace (toString (fromString (QLatin1String ''+137++251'')))"
    by (simp add: list_ex_iff)
  moreover from src have "\<not> list_ex isSpace (QLatin1String ''+137++251'')"
    by (simp add: list_ex_iff)
  moreover have "m_identifiers (fromString (QLatin1String ''+137++251'')) = [QLatin1String ''137'', QLatin1String ''251'']"
    by (simp add: fromString_def QLatin1String_def QLatin1Char_def splitSkip_def)
  moreover have "toString (fromString (QLatin1String ''+137++251'')) = QLatin1String ''137+251''"
    by (simp add: toString_def fromString_def QLatin1String_def QLatin1Char_def splitSkip_def)
  ultimately show ?thesis by blast
qed

subsection \<open>Host matching with a pattern that has no token\<close>

lemma splitSkip_Nil_iff: "splitSkip P s = [] \<longleftrightarrow> list_all P s"
  by (induction s) (auto simp: splitSkip_def split: list.splits)

text \<open>
  Claim C9.  A pattern that gives no token when split on \<open>.\<close> and \<open>:\<close> (empty parts
  skipped) is matched by every host, whatever the comparison of domains is; so
  \<open>matchesHost\<close> is true for every host as soon as the list has such a pattern.
\<close>

theorem matches_degenerate_pattern:
  assumes "splitSkip (\<lambda>c. c = QLatin1Char CHR ''.'' \<or> c = QLatin1Char CHR '':'') regexHost = []"
  shows "matches sameNoCase host regexHost
     \<and> (regexHost \<in> set regexHosts \<longrightarrow> matchesHost sameNoCase host regexHosts)"
proof -
  from assms have "list_all (\<lambda>c. c = QLatin1Char CHR ''.'' \<or> c = QLatin1Char CHR '':'') regexHost"
    by (simp add: splitSkip_Nil_iff)
  then have "list_all (\<lambda>c. c \<in> set (QLatin1String ''.|:'')) regexHost"
    by (auto simp: list_all_iff QLatin1String_def)
  then have "splitSkip (\<lambda>c. c \<in> set (QLatin1String ''.|:'')) regexHost = []"
    by (simp add: splitSkip_Nil_iff)
  then have m: "matches sameNoCase host regexHost"
    by (simp add: matches_def)
  then show ?thesis
    by (auto simp: matchesHost_def list_ex_iff)
qed

theorem matches_degenerate_pattern_witness:
  "splitSkip (\<lambda>c. c = QLatin1Char CHR ''.'' \<or> c = QLatin1Char CHR '':'') (QLatin1String '':.'') = []
   \<and> \<not> matches sameNoCase_Latin1 (QLatin1String ''www.absnews.com'') (QLatin1String ''absnews:videos'')
   \<and> matches sameNoCase_Latin1 (QLatin1String ''www.absnews.com'') (QLatin1String '':.'')
   \<and> matchesHost sameNoCase_Latin1 (QLatin1String ''www.absnews.com'')
        [QLatin1String ''absnews:videos'', QLatin1String '':.'']"
proof -
  have h: "splitSkip (\<lambda>c. c = QLatin1Char CHR ''.'' \<or> c = QLatin1Char CHR '':'') (QLatin1String '':.'') = []"
    by (simp add: splitSkip_def QLatin1String_def QLatin1Char_def)
  have n: "\<not> matches sameNoCase_Latin1 (QLatin1String ''www.absnews.com'') (QLatin1String ''absnews:videos'')"
    by (simp add: matches_def splitSkip_def QLatin1String_def QLatin1Char_def
        sameNoCase_Latin1_def toLower_def toLowerChar_def)
  have "QLatin1String '':.'' \<in> set [QLatin1String ''absnews:videos'', QLatin1String '':.'']"
    by simp
  with matches_degenerate_pattern[OF h, of sameNoCase_Latin1 "QLatin1String ''www.absnews.com''"
      "[QLatin1String ''absnews:videos'', QLatin1String '':.'']"] h n
  show ?thesis by blast
qed

subsection \<open>Size estimation\<close>

lemma sizesOf_find:
  "sizesOf fs k = map_option filesize (find (\<lambda>format. toString (formatId format) = k) (rev fs))"
  unfolding sizesOf_def
  by (induction fs rule: rev_induct) auto

lemma fold_add: "fold (\<lambda>i (acc::int). acc + g i) xs a = a + sum_list (map g xs)"
  by (induction xs arbitrary: a) auto

text \<open>
  Claim C6.  \<open>guestimateFullSize\<close> is \<open>-1\<close> for the empty id, and otherwise the sum over
  the atoms of \<open>compoundIds\<close> of the file size of the format whose id equals the atom
  (under \<open>operator==\<close>), an atom without such a format counting 0.  When several formats
  have the id of the atom, the map keeps the last of them.
\<close>

theorem guestimateFullSize_sum:
  "guestimateFullSize si fid =
     (if isEmpty fid then - 1
      else (\<Sum>a\<leftarrow>compoundIds fid.
              case find (\<lambda>format. eqId (formatId format) a) (rev (formats si)) of
                None \<Rightarrow> 0 | Some format \<Rightarrow> filesize format))"
proof -
  have "(case sizesOf fs (toString a) of None \<Rightarrow> 0 | Some v \<Rightarrow> v) =
        (case find (\<lambda>format. eqId (formatId format) a) (rev fs) of
                None \<Rightarrow> 0 | Some format \<Rightarrow> filesize format)" for fs a
    by (simp add: sizesOf_find eqId_def split: option.splits)
  then show ?thesis
    by (simp add: guestimateFullSize_def fold_add)
qed

theorem guestimateFullSize_sum_witness:
  "guestimateFullSize
     (StreamInfo_new\<lparr> formats :=
        [StreamFormat_new (QLatin1String ''137'') (QLatin1String ''mp4'') [] 1000 (QLatin1String ''none'') 0 0
           (QLatin1String ''avc1'') 1920 1080 30 0,
         StreamFormat_new (QLatin1String ''251'') (QLatin1String ''webm'') [] 200 (QLatin1String ''opus'') 0 0
           (QLatin1String ''none'') 0 0 0 0] \<rparr>)
     (fromString (QLatin1String ''137+251+999'')) = 1200
   \<and> guestimateFullSize StreamInfo_new (fromString []) = - 1"
  using guestimateFullSize_sum[of "StreamInfo_new\<lparr> formats :=
        [StreamFormat_new (QLatin1String ''137'') (QLatin1String ''mp4'') [] 1000 (QLatin1String ''none'') 0 0
           (QLatin1String ''avc1'') 1920 1080 30 0,
         StreamFormat_new (QLatin1String ''251'') (QLatin1String ''webm'') [] 200 (QLatin1String ''opus'') 0 0
           (QLatin1String ''none'') 0 0 0 0] \<rparr>" "fromString (QLatin1String ''137+251+999'')"]
    guestimateFullSize_sum[of StreamInfo_new "fromString []"]
  by (simp add: StreamInfo_new_def StreamFormat_new_def fromString_def compoundIds_def eqId_def
      toString_def isEmpty_def splitSkip_def QLatin1String_def QLatin1Char_def)

subsection \<open>File name sanitization\<close>

lemma set_collapse: "set (collapseUnderscores t) \<subseteq> set t"
  by (induction t rule: collapseUnderscores.induct) auto

lemma collapse_hd: "\<exists>r'. collapseUnderscores (b # r) = b # r'"
  by (induction r arbitrary: b) auto

lemma no_double_collapse: "\<not> hasDoubleUnderscore (collapseUnderscores t)"
proof (induction t rule: collapseUnderscores.induct)
  case (1 a b r)
  obtain r' where "collapseUnderscores (b # r) = b # r'"
    using collapse_hd by blast
  with 1 show ?case by auto
qed auto

lemma double_Cons: "hasDoubleUnderscore cs \<Longrightarrow> hasDoubleUnderscore (c # cs)"
  by (cases cs) auto

lemma double_sep_Cons: "sp \<noteq> 0x5F \<Longrightarrow> hasDoubleUnderscore (sp # r) = hasDoubleUnderscore r"
  by (cases r) auto

lemma double_append_sep:
  "sp \<noteq> 0x5F \<Longrightarrow> hasDoubleUnderscore (w @ sp # r) = (hasDoubleUnderscore w \<or> hasDoubleUnderscore r)"
proof (induction w rule: induct_list012)
  case 1
  then show ?case by (simp add: double_sep_Cons)
next
  case (2 x)
  then show ?case by (simp add: double_sep_Cons)
next
  case (3 x y zs)
  then show ?case by simp
qed

lemma double_join:
  "sp \<noteq> 0x5F \<Longrightarrow> hasDoubleUnderscore (join [sp] ws) = (\<exists>w\<in>set ws. hasDoubleUnderscore w)"
proof (induction ws rule: induct_list012)
  case 1
  then show ?case by simp
next
  case (2 x)
  then show ?case by simp
next
  case (3 x y zs)
  from 3(3) have "hasDoubleUnderscore (join [sp] (x # y # zs)) =
     (hasDoubleUnderscore x \<or> hasDoubleUnderscore (join [sp] (y # zs)))"
    by (simp add: double_append_sep)
  with 3 show ?case by simp
qed

lemma splitKeep_hd: "splitKeep P cs = (b # r) # ws \<Longrightarrow> \<exists>cs'. cs = b # cs'"
  by (cases cs) (auto split: if_splits list.splits)

lemma double_splitKeep: "\<forall>w\<in>set (splitKeep P t). hasDoubleUnderscore w \<longrightarrow> hasDoubleUnderscore t"
proof (induction t)
  case Nil
  then show ?case by simp
next
  case (Cons c cs)
  obtain w0 ws0 where sk: "splitKeep P cs = w0 # ws0"
    using splitKeep_not_Nil[of P cs] by (cases "splitKeep P cs") auto
  have rest: "hasDoubleUnderscore (c # cs)" if "w \<in> set (splitKeep P cs)" "hasDoubleUnderscore w" for w
  proof -
    from that Cons.IH have "hasDoubleUnderscore cs" by blast
    then show ?thesis by (rule double_Cons)
  qed
  show ?case
  proof (cases "P c")
    case True
    then have eq: "set (splitKeep P (c # cs)) = insert [] (set (splitKeep P cs))" by simp
    show ?thesis
    proof (intro ballI impI)
      fix w assume "w \<in> set (splitKeep P (c # cs))" and d: "hasDoubleUnderscore w"
      with eq have "w = [] \<or> w \<in> set (splitKeep P cs)" by simp
      with d show "hasDoubleUnderscore (c # cs)" using rest by fastforce
    qed
  next
    case False
    have first: "hasDoubleUnderscore (c # cs)" if d: "hasDoubleUnderscore (c # w0)"
    proof (cases w0)
      case Nil
      with d show ?thesis by simp
    next
      case (Cons b r0)
      with sk have "splitKeep P cs = (b # r0) # ws0" by simp
      then obtain cs' where cs: "cs = b # cs'" by (auto dest: splitKeep_hd)
      from d Cons have "(c = 0x5F \<and> b = 0x5F) \<or> hasDoubleUnderscore w0" by simp
      then show ?thesis
      proof
        assume "c = 0x5F \<and> b = 0x5F"
        with cs show ?thesis by simp
      next
        assume "hasDoubleUnderscore w0"
        with sk rest[of w0] show ?thesis by simp
      qed
    qed
    from False sk have eq: "set (splitKeep P (c # cs)) = insert (c # w0) (set ws0)" by simp
    from sk have sub: "set ws0 \<subseteq> set (splitKeep P cs)" by auto
    show ?thesis
    proof (intro ballI impI)
      fix w assume "w \<in> set (splitKeep P (c # cs))" and d: "hasDoubleUnderscore w"
      with eq have "w = c # w0 \<or> w \<in> set ws0" by simp
      then show "hasDoubleUnderscore (c # cs)"
      proof
        assume "w = c # w0"
        with d first show ?thesis by simp
      next
        assume "w \<in> set ws0"
        with sub have "w \<in> set (splitKeep P cs)" by blast
        then show ?thesis using d by (rule rest)
      qed
    qed
  qed
qed

lemma no_double_simplified:
  assumes "\<not> hasDoubleUnderscore t"
  shows "\<not> hasDoubleUnderscore (simplified t)"
proof -
  have "\<forall>w\<in>set (splitSkip isSpace t). \<not> hasDoubleUnderscore w"
    using assms double_splitKeep[of isSpace t] by (auto simp: splitSkip_def)
  then show ?thesis
    by (simp add: simplified_def double_join)
qed


lemma join_hd_last:
  "ws \<noteq> [] \<Longrightarrow> \<forall>w\<in>set ws. w \<noteq> [] \<Longrightarrow>
     join sep ws \<noteq> [] \<and> hd (join sep ws) = hd (hd ws) \<and> last (join sep ws) = last (last ws)"
  by (induction ws rule: induct_list012) auto

lemma simplified_trimmed:
  assumes ne: "simplified t \<noteq> []"
  shows "\<not> isSpace (hd (simplified t)) \<and> \<not> isSpace (last (simplified t))"
proof -
  let ?ws = "splitSkip isSpace t"
  have ws: "\<forall>w\<in>set ?ws. w \<noteq> [] \<and> (\<forall>c\<in>set w. \<not> isSpace c)"
    using splitSkip_word[of _ isSpace t] by blast
  from ne have wne: "?ws \<noteq> []" by (auto simp: simplified_def)
  from ws have "\<forall>w\<in>set ?ws. w \<noteq> []" by blast
  with wne have hl: "hd (simplified t) = hd (hd ?ws) \<and> last (simplified t) = last (last ?ws)"
    using join_hd_last[of ?ws "[0x20]"] by (simp add: simplified_def)
  from wne have "hd ?ws \<in> set ?ws" and "last ?ws \<in> set ?ws" by simp_all
  with ws have h: "hd ?ws \<noteq> []" "\<forall>c\<in>set (hd ?ws). \<not> isSpace c"
    and l: "last ?ws \<noteq> []" "\<forall>c\<in>set (last ?ws). \<not> isSpace c" by blast+
  from h(1) have "hd (hd ?ws) \<in> set (hd ?ws)" by (rule hd_in_set)
  with h(2) have 1: "\<not> isSpace (hd (hd ?ws))" by blast
  from l(1) have "last (last ?ws) \<in> set (last ?ws)" by (rule last_in_set)
  with l(2) have 2: "\<not> isSpace (last (last ?ws))" by blast
  from 1 2 hl show ?thesis by simp
qed

lemma set_simplified: "set (simplified t) \<subseteq> insert 0x20 (set t)"
proof -
  have "set (simplified t) \<subseteq> set [0x20] \<union> \<Union> (set ` set (splitSkip isSpace t))"
    unfolding simplified_def by (rule set_join)
  moreover have "\<Union> (set ` set (splitSkip isSpace t)) \<subseteq> set t"
    using set_splitSkip[of _ isSpace t] by blast
  ultimately show ?thesis by auto
qed

lemma cleanChar_cases: "L (cleanChar L c) \<or> cleanChar L c \<in> set C_LEGAL_CHARS \<or> cleanChar L c = 0x5F"
  by (simp add: cleanChar_def C_LEGAL_CHARS_def)

lemma space_legal: "0x20 \<in> set C_LEGAL_CHARS"
  by (simp add: C_LEGAL_CHARS_def QLatin1String_def QLatin1Char_def)



lemma cleanFileName_slash:
  "cleanFileName isLetterOrNumber_Latin1 (QLatin1String ''a/b'') = QLatin1String ''a_b''"
  by (simp add: cleanFileName_def simplified_def splitSkip_def isSpace_def cleanChar_def
     C_LEGAL_CHARS_def QLatin1String_def QLatin1Char_def isLetterOrNumber_Latin1_def)

text \<open>
  Claim C5, as stated, fails: the slash, which is neither a letter, a number nor legal,
  becomes an underscore, and the underscore is itself no letter, no number and not in
  the legal set.  The title \<open>a/b\<close> gives \<open>a_b\<close>.
\<close>

theorem cleanFileName_underscore_counterexample:
  "\<not> (\<forall>c\<in>set (cleanFileName isLetterOrNumber_Latin1 (QLatin1String ''a/b'')).
     isLetterOrNumber_Latin1 c \<or> c \<in> set C_LEGAL_CHARS)"
  by (simp add: cleanFileName_slash)
    (simp add: C_LEGAL_CHARS_def QLatin1String_def QLatin1Char_def isLetterOrNumber_Latin1_def)

text \<open>
  Claim C5, amended.  For every input text, the result of \<open>cleanFileName\<close> has only
  letters, numbers, characters of the legal set and underscores; it never has two
  adjacent underscores; and it neither starts nor ends with white space.  The file base
  name is \<open>cleanFileName\<close> of the title.  This holds whatever the table
  \<open>isLetterOrNumber\<close> is.
\<close>

theorem cleanFileName_alphabet:
  "(\<forall>c\<in>set (cleanFileName L fileName). L c \<or> c \<in> set C_LEGAL_CHARS \<or> c = 0x5F)
   \<and> \<not> hasDoubleUnderscore (cleanFileName L fileName)
   \<and> (cleanFileName L fileName \<noteq> [] \<longrightarrow>
        \<not> isSpace (hd (cleanFileName L fileName)) \<and> \<not> isSpace (last (cleanFileName L fileName)))
   \<and> fileBaseName L si = cleanFileName L (title si)"
proof -
  let ?m = "map (cleanChar L) (simplified fileName)"
  have "set (cleanFileName L fileName) \<subseteq> insert 0x20 (set (collapseUnderscores ?m))"
    unfolding cleanFileName_def by (rule set_simplified)
  also have "\<dots> \<subseteq> insert 0x20 (set ?m)"
    using set_collapse[of ?m] by blast
  finally have sub: "set (cleanFileName L fileName) \<subseteq> insert 0x20 (set ?m)" .
  have ok: "\<forall>c\<in>set ?m. L c \<or> c \<in> set C_LEGAL_CHARS \<or> c = 0x5F"
    using cleanChar_cases[of L] by auto
  have 1: "\<forall>c\<in>set (cleanFileName L fileName). L c \<or> c \<in> set C_LEGAL_CHARS \<or> c = 0x5F"
  proof
    fix c assume "c \<in> set (cleanFileName L fileName)"
    with sub have "c = 0x20 \<or> c \<in> set ?m" by blast
    then show "L c \<or> c \<in> set C_LEGAL_CHARS \<or> c = 0x5F"
      using ok space_legal by blast
  qed
  have 2: "\<not> hasDoubleUnderscore (cleanFileName L fileName)"
    unfolding cleanFileName_def by (intro no_double_simplified no_double_collapse)
  have 3: "cleanFileName L fileName \<noteq> [] \<longrightarrow>
        \<not> isSpace (hd (cleanFileName L fileName)) \<and> \<not> isSpace (last (cleanFileName L fileName))"
    unfolding cleanFileName_def using simplified_trimmed by blast
  from 1 2 3 show ?thesis by (simp add: fileBaseName_def)
qed

theorem cleanFileName_alphabet_witness:
  "cleanFileName isLetterOrNumber_Latin1 (QLatin1String ''  A//b  *c d. '') = QLatin1String ''A_b _c d.''
   \<and> list_all (\<lambda>c. isLetterOrNumber_Latin1 c \<or> c \<in> set C_LEGAL_CHARS \<or> c = 0x5F)
        (cleanFileName isLetterOrNumber_Latin1 (QLatin1String ''  A//b  *c d. ''))
   \<and> \<not> hasDoubleUnderscore (cleanFileName isLetterOrNumber_Latin1 (QLatin1String ''  A//b  *c d. ''))
   \<and> \<not> isSpace (hd (cleanFileName isLetterOrNumber_Latin1 (QLatin1String ''  A//b  *c d. '')))
   \<and> \<not> isSpace (last (cleanFileName isLetterOrNumber_Latin1 (QLatin1String ''  A//b  *c d. '')))"
proof -
  have ev: "cleanFileName isLetterOrNumber_Latin1 (QLatin1String ''  A//b  *c d. '') = QLatin1String ''A_b _c d.''"
    by (simp add: cleanFileName_def simplified_def splitSkip_def isSpace_def cleanChar_def
     C_LEGAL_CHARS_def QLatin1String_def QLatin1Char_def isLetterOrNumber_Latin1_def)
  then have ne: "cleanFileName isLetterOrNumber_Latin1 (QLatin1String ''  A//b  *c d. '') \<noteq> []"
    by (simp add: QLatin1String_def)
  from cleanFileName_alphabet[of isLetterOrNumber_Latin1 "QLatin1String ''  A//b  *c d. ''" StreamInfo_new] ne
  have "list_all (\<lambda>c. isLetterOrNumber_Latin1 c \<or> c \<in> set C_LEGAL_CHARS \<or> c = 0x5F)
        (cleanFileName isLetterOrNumber_Latin1 (QLatin1String ''  A//b  *c d. ''))
   \<and> \<not> hasDoubleUnderscore (cleanFileName isLetterOrNumber_Latin1 (QLatin1String ''  A//b  *c d. ''))
   \<and> \<not> isSpace (hd (cleanFileName isLetterOrNumber_Latin1 (QLatin1String ''  A//b  *c d. '')))
   \<and> \<not> isSpace (last (cleanFileName isLetterOrNumber_Latin1 (QLatin1String ''  A//b  *c d. '')))"
    unfolding list_all_iff by blast
  with ev show ?thesis by blast
qed

subsection \<open>The download driver: section starts and progress values\<close>

lemmas driver_eval = runSignals_def parseStandardOutput_def Let_def splitSkip_def
  QLatin1String_def QLatin1Char_def toLower_def toLowerChar_def C_DOWNLOAD_msg_header_def
  C_DOWNLOAD_next_section_def parsePercentDecimal_def parseDecimal_def isDigit_def
  digitsValue_def parseBytes_def unitMultiple_def qCeil_def add64_def emitReceived_def
  q_bytesTotal_def Stream_onFinished_def C_EXIT_SUCCESS_def freshStream_def
  twoSectionTexts_def setSelectedFormatId_def Stream_new_def clear_def fromString_def

text \<open>
  Claim C2, as stated, fails: on a section start the code adds the section's bytes to
  \<open>m_bytesReceived\<close> and emits the progress signal, but it does not reset the two section
  counters.  After a progress text of 50 percent of 100 MiB and a section start, the
  section counters still hold 52428800 and 104857600.
\<close>

theorem section_start_no_reset_counterexample:
  "runTrace parsePercentDecimal parseBytes freshStream
     [QLatin1String ''[download] 50.0% of 100.00MiB'',
      QLatin1String ''[download] Destination: /tmp/out.m4a'']
   = Inr [(freshStream\<lparr> m_bytesTotalCurrentSection := 104857600,
                        m_bytesReceivedCurrentSection := 52428800 \<rparr>,
           [downloadProgress 52428800 104857600]),
          (freshStream\<lparr> m_bytesTotalCurrentSection := 104857600,
                        m_bytesReceivedCurrentSection := 52428800,
                        m_bytesReceived := 52428800 \<rparr>,
           [downloadProgress 52428800 104857600])]
   \<and> \<not> (m_bytesReceivedCurrentSection
           (freshStream\<lparr> m_bytesTotalCurrentSection := 104857600,
                         m_bytesReceivedCurrentSection := 52428800,
                         m_bytesReceived := 52428800 \<rparr>) = 0
         \<and> m_bytesTotalCurrentSection
           (freshStream\<lparr> m_bytesTotalCurrentSection := 104857600,
                         m_bytesReceivedCurrentSection := 52428800,
                         m_bytesReceived := 52428800 \<rparr>) = 0)"
  by (simp add: driver_eval)

text \<open>
  Claim C2, amended.  On a text whose first token, in lower case, is \<open>[download]\<close>, that
  has more than two tokens and whose second token is \<open>Destination:\<close>, the driver adds
  \<open>m_bytesReceivedCurrentSection\<close> to \<open>m_bytesReceived\<close>, changes nothing else (the two
  section counters keep their values) and emits
  \<open>downloadProgress(m_bytesReceived, _q_bytesTotal())\<close>, as long as the sum is in the range
  of \<open>qint64\<close>.
\<close>

theorem section_start_accumulates:
  assumes "tokens = splitSkip (\<lambda>c. c = 0x20) data"
    and "tokens \<noteq> []"
    and "toLower (tokens ! 0) = C_DOWNLOAD_msg_header"
    and "length tokens > 2"
    and "tokens ! 1 = C_DOWNLOAD_next_section"
  shows "parseStandardOutput parsePercent parseSize st data =
     (if - (2 ^ 63) \<le> m_bytesReceived st + m_bytesReceivedCurrentSection st
         \<and> m_bytesReceived st + m_bytesReceivedCurrentSection st < 2 ^ 63
      then Inr (st\<lparr> m_bytesReceived := m_bytesReceived st + m_bytesReceivedCurrentSection st \<rparr>,
                [downloadProgress (m_bytesReceived st + m_bytesReceivedCurrentSection st)
                   (q_bytesTotal st)])
      else Inl Int64Overflow)"
  using assms
  by (simp add: parseStandardOutput_def Let_def add64_def q_bytesTotal_def)

theorem section_start_accumulates_witness:
  "parseStandardOutput parsePercentDecimal parseBytes
     (freshStream\<lparr> m_bytesTotalCurrentSection := 104857600,
                   m_bytesReceivedCurrentSection := 52428800 \<rparr>)
     (QLatin1String ''[Download] Destination: /tmp/out.m4a'')
   = Inr (freshStream\<lparr> m_bytesTotalCurrentSection := 104857600,
                        m_bytesReceivedCurrentSection := 52428800,
                        m_bytesReceived := 52428800 \<rparr>,
          [downloadProgress 52428800 104857600])"
proof -
  let ?data = "QLatin1String ''[Download] Destination: /tmp/out.m4a''"
  let ?tokens = "splitSkip (\<lambda>c. c = 0x20) ?data"
  have t: "?tokens = [QLatin1String ''[Download]'', QLatin1String ''Destination:'',
      QLatin1String ''/tmp/out.m4a'']"
    by (simp add: splitSkip_def QLatin1String_def QLatin1Char_def)
  have h2: "?tokens \<noteq> []" by (simp add: t)
  have h3: "toLower (?tokens ! 0) = C_DOWNLOAD_msg_header"
    by (simp add: t) (simp add: toLower_def toLowerChar_def C_DOWNLOAD_msg_header_def
        QLatin1String_def QLatin1Char_def)
  have h4: "length ?tokens > 2" by (simp add: t)
  have h5: "?tokens ! 1 = C_DOWNLOAD_next_section"
    by (simp add: t) (simp add: C_DOWNLOAD_next_section_def)
  show ?thesis
    using section_start_accumulates[OF refl h2 h3 h4 h5, of parsePercentDecimal parseBytes
      "freshStream\<lparr> m_bytesTotalCurrentSection := 104857600,
                   m_bytesReceivedCurrentSection := 52428800 \<rparr>"]
    by (simp add: freshStream_def setSelectedFormatId_def Stream_new_def clear_def
        q_bytesTotal_def)
qed

lemma ceil_nonneg: "0 \<le> (p::rat) \<Longrightarrow> 0 \<le> (t::int) \<Longrightarrow> 0 \<le> \<lceil>(p * of_int t) / 100\<rceil>"
proof -
  assume "0 \<le> p" "0 \<le> t"
  then have "0 \<le> (p * of_int t) / 100" by simp
  then have "- 1 < (p * of_int t) / 100" by linarith
  then show ?thesis by (simp only: zero_le_ceiling)
qed

lemma emitReceived_step:
  assumes "emitReceived st = Inr (st', sigs)"
  shows "st' = st \<and> sigs = [downloadProgress (m_bytesReceived st + m_bytesReceivedCurrentSection st) (q_bytesTotal st)]"
  using assms by (auto simp: emitReceived_def add64_def split: if_splits)

lemma emitReceived_ok:
  assumes "emitReceived st = Inr (st', sigs)" and "0 \<le> m_bytesReceivedCurrentSection st"
  shows "m_bytesReceived st' = m_bytesReceived st
     \<and> m_bytesReceivedCurrentSection st' = m_bytesReceivedCurrentSection st
     \<and> (\<forall>received tot. downloadProgress received tot \<in> set sigs \<longrightarrow> m_bytesReceived st' \<le> received)"
  using emitReceived_step[OF assms(1)] assms(2) by simp

lemma parse_step:
  assumes res: "parseStandardOutput parsePercent parseSize st data = Inr (st', sigs)"
    and s0: "0 \<le> m_bytesReceivedCurrentSection st"
  shows "m_bytesReceived st \<le> m_bytesReceived st'
     \<and> 0 \<le> m_bytesReceivedCurrentSection st'
     \<and> (\<forall>received tot. downloadProgress received tot \<in> set sigs \<longrightarrow> m_bytesReceived st' \<le> received)"
proof -
  define tokens where "tokens = splitSkip (\<lambda>c. c = 0x20) data"
  define percent where "percent = parsePercent (tokens ! 1)"
  define st1 where "st1 = st\<lparr> m_bytesTotalCurrentSection := parseSize (tokens ! 3) \<rparr>"
  have eq: "parseStandardOutput parsePercent parseSize st data =
     (if tokens = [] then Inr (st, [])
      else if toLower (tokens ! 0) \<noteq> C_DOWNLOAD_msg_header then Inr (st, [])
      else if length tokens > 2 \<and> tokens ! 1 = C_DOWNLOAD_next_section then
        (case add64 (m_bytesReceived st) (m_bytesReceivedCurrentSection st) of
           Inl f \<Rightarrow> Inl f
         | Inr b \<Rightarrow>
             Inr (st\<lparr> m_bytesReceived := b \<rparr>,
                  [downloadProgress b (q_bytesTotal (st\<lparr> m_bytesReceived := b \<rparr>))]))
      else if length tokens > 3 \<and> QLatin1Char CHR ''%'' \<in> set (tokens ! 1)
              \<and> tokens ! 2 = QLatin1String ''of'' then
        (if percent < 0 then Inr (st, [])
         else if m_bytesTotalCurrentSection st1 < 0 then Inr (st1, [])
         else (case qCeil ((percent * of_int (m_bytesTotalCurrentSection st1)) / 100) of
                 Inl f \<Rightarrow> Inl f
               | Inr s \<Rightarrow> emitReceived (st1\<lparr> m_bytesReceivedCurrentSection := s \<rparr>)))
      else emitReceived st)"
    unfolding parseStandardOutput_def tokens_def percent_def st1_def Let_def by (rule refl)
  show ?thesis
  proof (cases "tokens = [] \<or> toLower (tokens ! 0) \<noteq> C_DOWNLOAD_msg_header")
    case True
    with res have "st' = st \<and> sigs = []" unfolding eq by (auto split: if_splits)
    with s0 show ?thesis by simp
  next
    case hdr: False
    show ?thesis
    proof (cases "length tokens > 2 \<and> tokens ! 1 = C_DOWNLOAD_next_section")
      case True
      with hdr res[unfolded eq] have
        "(case add64 (m_bytesReceived st) (m_bytesReceivedCurrentSection st) of
           Inl f \<Rightarrow> Inl f
         | Inr b \<Rightarrow>
             Inr (st\<lparr> m_bytesReceived := b \<rparr>,
                  [downloadProgress b (q_bytesTotal (st\<lparr> m_bytesReceived := b \<rparr>))])) = Inr (st', sigs)"
        by simp
      then have "st' = st\<lparr> m_bytesReceived := m_bytesReceived st + m_bytesReceivedCurrentSection st \<rparr>
          \<and> sigs = [downloadProgress (m_bytesReceived st + m_bytesReceivedCurrentSection st) (q_bytesTotal st')]"
        by (auto simp: add64_def split: if_splits)
      with s0 show ?thesis by simp
    next
      case nosec: False
      show ?thesis
      proof (cases "length tokens > 3 \<and> QLatin1Char CHR ''%'' \<in> set (tokens ! 1)
              \<and> tokens ! 2 = QLatin1String ''of''")
        case True
        with hdr nosec res[unfolded eq] have r:
          "(if percent < 0 then Inr (st, [])
            else if m_bytesTotalCurrentSection st1 < 0 then Inr (st1, [])
            else (case qCeil ((percent * of_int (m_bytesTotalCurrentSection st1)) / 100) of
                 Inl f \<Rightarrow> Inl f
               | Inr s \<Rightarrow> emitReceived (st1\<lparr> m_bytesReceivedCurrentSection := s \<rparr>))) = Inr (st', sigs)"
          by simp
        show ?thesis
        proof (cases "percent < 0")
          case True
          with r have "st' = st \<and> sigs = []" by simp
          with s0 show ?thesis by simp
        next
          case pos: False
          show ?thesis
          proof (cases "m_bytesTotalCurrentSection st1 < 0")
            case True
            with pos r have "st' = st1 \<and> sigs = []" by simp
            with s0 show ?thesis by (simp add: st1_def)
          next
            case False
            define s where "s = \<lceil>(percent * of_int (m_bytesTotalCurrentSection st1)) / 100\<rceil>"
            from pos False have "0 \<le> s" unfolding s_def by (intro ceil_nonneg) auto
            from pos False r have "emitReceived (st1\<lparr> m_bytesReceivedCurrentSection := s \<rparr>) = Inr (st', sigs)"
              by (auto simp: qCeil_def s_def split: if_splits)
            from emitReceived_ok[OF this] \<open>0 \<le> s\<close> show ?thesis by (auto simp: st1_def)
          qed
        qed
      next
        case False
        with hdr nosec res[unfolded eq] have "emitReceived st = Inr (st', sigs)"
          by (simp split: if_splits)
        from emitReceived_ok[OF this s0] s0 show ?thesis by auto
      qed
    qed
  qed
qed



lemma receivedOf_mem:
  "received \<in> set (receivedOf sigs) \<longleftrightarrow> (\<exists>tot. downloadProgress received tot \<in> set sigs)"
  by (induction sigs rule: receivedOf.induct) auto

lemma runTrace_monotone:
  assumes "runTrace parsePercent parseSize st texts = Inr tr"
    and "0 \<le> m_bytesReceivedCurrentSection st"
  shows "sorted (m_bytesReceived st # map (\<lambda>p. m_bytesReceived (fst p)) tr)
     \<and> (\<forall>p\<in>set tr. \<forall>received tot.
           downloadProgress received tot \<in> set (snd p) \<longrightarrow> m_bytesReceived (fst p) \<le> received)"
  using assms
proof (induction texts arbitrary: st tr)
  case Nil
  then show ?case by simp
next
  case (Cons data rest)
  from Cons.prems(1) obtain st' sigs tr' where
    p: "parseStandardOutput parsePercent parseSize st data = Inr (st', sigs)"
    and r: "runTrace parsePercent parseSize st' rest = Inr tr'"
    and tr: "tr = (st', sigs) # tr'"
    by (auto split: sum.splits)
  from parse_step[OF p Cons.prems(2)] have
    le: "m_bytesReceived st \<le> m_bytesReceived st'"
    and s': "0 \<le> m_bytesReceivedCurrentSection st'"
    and ev: "\<forall>received tot. downloadProgress received tot \<in> set sigs \<longrightarrow> m_bytesReceived st' \<le> received"
    by blast+
  from Cons.IH[OF r s'] have
    srt: "sorted (m_bytesReceived st' # map (\<lambda>p. m_bytesReceived (fst p)) tr')"
    and rest: "\<forall>p\<in>set tr'. \<forall>received tot.
           downloadProgress received tot \<in> set (snd p) \<longrightarrow> m_bytesReceived (fst p) \<le> received"
    by blast+
  from le srt have "sorted (m_bytesReceived st # map (\<lambda>p. m_bytesReceived (fst p)) tr)"
    unfolding tr by auto
  moreover from ev rest have "\<forall>p\<in>set tr. \<forall>received tot.
           downloadProgress received tot \<in> set (snd p) \<longrightarrow> m_bytesReceived (fst p) \<le> received"
    unfolding tr by simp
  ultimately show ?case by blast
qed

lemma twoSection_run:
  "runSignals parsePercentDecimal parseBytes freshStream twoSectionTexts 0 NormalExit [] =
     Inr [downloadProgress 10485760 104857600, downloadProgress 52428800 104857600,
          downloadProgress 52428800 104857600, downloadProgress 65536000 52428800,
          downloadProgress 52428800 52428800, downloadFinished]"
  by (simp add: driver_eval)

text \<open>
  Claim C1, as stated, fails.  In the run of two sections that ends with exit code 0, the
  progress signals carry 10485760, 52428800, 52428800, 65536000 and then 52428800: the
  last signal, made by \<open>onFinished\<close>, carries \<open>_q_bytesTotal()\<close>, which is the total of the
  last section only.  (A progress text with a smaller percentage than the text before
  it makes the value fall as well: nothing in the code keeps the value from falling.)
\<close>

theorem progress_received_not_monotone_counterexample:
  "\<exists>sigs. runSignals parsePercentDecimal parseBytes freshStream twoSectionTexts 0 NormalExit []
            = Inr sigs
      \<and> \<not> sorted (receivedOf sigs)"
  by (simp add: twoSection_run)

text \<open>
  Claim C1, amended.  In a run that starts with a non-negative
  \<open>m_bytesReceivedCurrentSection\<close> (as \<open>clear\<close> and \<open>initializeWithStreamInfo\<close> leave it)
  and in which no conversion leaves its range, the cumulative counter \<open>m_bytesReceived\<close>
  never decreases from one text of the standard output to the next, and every
  \<open>received\<close> value emitted for a text is at least the counter after that text.  This
  holds for every pair of parsers.
\<close>

theorem bytesReceived_monotone:
  assumes "runTrace parsePercent parseSize st texts = Inr tr"
    and "0 \<le> m_bytesReceivedCurrentSection st"
  shows "sorted (m_bytesReceived st # map (\<lambda>p. m_bytesReceived (fst p)) tr)
     \<and> (\<forall>p\<in>set tr. \<forall>received\<in>set (receivedOf (snd p)). m_bytesReceived (fst p) \<le> received)"
  using runTrace_monotone[OF assms] by (simp add: receivedOf_mem)

theorem bytesReceived_monotone_witness:
  "\<exists>tr. runTrace parsePercentDecimal parseBytes freshStream twoSectionTexts = Inr tr
      \<and> map (\<lambda>p. m_bytesReceived (fst p)) tr = [0, 0, 52428800, 52428800]
      \<and> map (\<lambda>p. receivedOf (snd p)) tr = [[10485760], [52428800], [52428800], [65536000]]
      \<and> sorted (m_bytesReceived freshStream # map (\<lambda>p. m_bytesReceived (fst p)) tr)
      \<and> list_all (\<lambda>p. list_all (\<lambda>received. m_bytesReceived (fst p) \<le> received)
                         (receivedOf (snd p))) tr"
proof -
  obtain tr where tr: "runTrace parsePercentDecimal parseBytes freshStream twoSectionTexts = Inr tr"
    and b: "map (\<lambda>p. m_bytesReceived (fst p)) tr = [0, 0, 52428800, 52428800]"
    and r: "map (\<lambda>p. receivedOf (snd p)) tr = [[10485760], [52428800], [52428800], [65536000]]"
    by (simp add: driver_eval)
  have s0: "0 \<le> m_bytesReceivedCurrentSection freshStream"
    by (simp add: freshStream_def setSelectedFormatId_def Stream_new_def clear_def)
  from bytesReceived_monotone[OF tr s0]
  have m: "sorted (m_bytesReceived freshStream # map (\<lambda>p. m_bytesReceived (fst p)) tr)"
    and e: "list_all (\<lambda>p. list_all (\<lambda>received. m_bytesReceived (fst p) \<le> received)
                         (receivedOf (snd p))) tr"
    by (simp_all add: list_all_iff)
  show ?thesis
    by (rule exI[of _ tr]) (intro conjI tr b r m e)
qed

subsection \<open>The collector: reconciliation and the dump map\<close>

lemmas json_eval = fromJsonStrings_def parseMember_def unquote_def quoted_def jsonLine_def
  playlistDumpStdout_def playlistDumpStderr_def playlistFlatStdout_def

lemmas collector_eval = parseDumpMap_def parseFlatList_def parseDumpItemStdOut_def
  parseDumpItemStdErr_def parseFlatItem_def getStreamId_def trimmed_def isSpace_def
  splitSkip_def member_def setError_def StreamInfo_new_def fromLatin1_def QLatin1String_def
  QLatin1Char_def fromString_def Let_def

text \<open>
  A fold of insertions into a \<open>QMap\<close>: the value of a key is that of the last element
  inserted under the key, or the value it had before the fold.
\<close>

lemma fold_update_find:
  "map_of (fold (\<lambda>x m. if P x then AList.update (k x) (v x) m else m) xs m0) i
     = (case find (\<lambda>x. P x \<and> k x = i) (rev xs) of
          Some x \<Rightarrow> Some (v x)
        | None \<Rightarrow> map_of m0 i)"
  by (induction xs rule: rev_induct) (auto simp: update_conv')

lemma find_SomeD: "find P xs = Some x \<Longrightarrow> P x"
  by (auto simp: find_Some_iff)

text \<open>
  The entry of the dump map for an id: the stub of the last non-empty line of the standard
  error with that id when there is one; otherwise the item of the last non-empty line of
  the standard output with that id; otherwise none.
\<close>

lemma parseDumpMap_lookup:
  "map_of (parseDumpMap fromJson stdoutBytes stderrBytes) i
     = (case find (\<lambda>l. l \<noteq> [] \<and> getStreamId l = i)
               (rev (splitKeep (\<lambda>c. c = CHR 0x0A) stderrBytes)) of
          Some l \<Rightarrow> Some (StreamInfo_new\<lparr> stream_id := i, m_error := ErrorUnavailable \<rparr>)
        | None \<Rightarrow>
           (case find (\<lambda>l. l \<noteq> [] \<and> stream_id (parseDumpItemStdOut fromJson l) = i)
                   (rev (splitKeep (\<lambda>c. c = CHR 0x0A) stdoutBytes)) of
              Some l \<Rightarrow> Some (parseDumpItemStdOut fromJson l)
            | None \<Rightarrow> None))"
proof -
  let ?errs = "rev (splitKeep (\<lambda>c. c = CHR 0x0A) stderrBytes)"
  let ?outs = "rev (splitKeep (\<lambda>c. c = CHR 0x0A) stdoutBytes)"
  let ?fe = "\<lambda>x m. if x \<noteq> [] then AList.update (getStreamId x) (parseDumpItemStdErr x) m else m"
  let ?fo = "\<lambda>x m. if x \<noteq> []
     then AList.update (stream_id (parseDumpItemStdOut fromJson x)) (parseDumpItemStdOut fromJson x) m
     else m"
  have sid: "stream_id (parseDumpItemStdErr l) = getStreamId l" for l
    by (simp add: parseDumpItemStdErr_def setError_def)
  have eq: "parseDumpMap fromJson stdoutBytes stderrBytes =
      fold ?fe (splitKeep (\<lambda>c. c = CHR 0x0A) stderrBytes)
        (fold ?fo (splitKeep (\<lambda>c. c = CHR 0x0A) stdoutBytes) [])"
    unfolding parseDumpMap_def Let_def sid by (rule refl)
  have stub: "parseDumpItemStdErr l = StreamInfo_new\<lparr> stream_id := i, m_error := ErrorUnavailable \<rparr>"
    if "find (\<lambda>l. l \<noteq> [] \<and> getStreamId l = i) ?errs = Some l" for l
    using find_SomeD[OF that] by (simp add: parseDumpItemStdErr_def setError_def)
  have out: "map_of (fold ?fo (splitKeep (\<lambda>c. c = CHR 0x0A) stdoutBytes) []) i
      = (case find (\<lambda>l. l \<noteq> [] \<and> stream_id (parseDumpItemStdOut fromJson l) = i) ?outs of
              Some l \<Rightarrow> Some (parseDumpItemStdOut fromJson l)
            | None \<Rightarrow> None)"
    by (simp add: fold_update_find[where P = "\<lambda>x. x \<noteq> []"] split: option.splits)
  have "map_of (parseDumpMap fromJson stdoutBytes stderrBytes) i
      = (case find (\<lambda>l. l \<noteq> [] \<and> getStreamId l = i) ?errs of
           Some l \<Rightarrow> Some (parseDumpItemStdErr l)
         | None \<Rightarrow> map_of (fold ?fo (splitKeep (\<lambda>c. c = CHR 0x0A) stdoutBytes) []) i)"
    unfolding eq by (rule fold_update_find[where P = "\<lambda>x. x \<noteq> []"])
  then show ?thesis
    unfolding out by (simp add: stub split: option.splits)
qed


lemma find_Some_mem: "find P xs = Some x \<Longrightarrow> x \<in> set xs \<and> P x"
  by (auto simp: find_Some_iff)

lemma find_rev_ex: "x \<in> set xs \<Longrightarrow> P x \<Longrightarrow> \<exists>y. find P (rev xs) = Some y"
  by (cases "find P (rev xs)") (auto simp: find_None_iff)

text \<open>
  Claim C10.  \<open>parseDumpMap\<close> inserts the items of the standard error after those of the
  standard output, into the same map.  For every non-empty line of the standard error,
  the entry of the map for the id of that line is the stub: that id, the error
  \<open>ErrorUnavailable\<close>, every other field as the default constructor leaves it.  When a
  non-empty line of the standard output was parsed with success (its error is \<open>NoError\<close>)
  and carries the same id, the entry is not the item of that line: its metadata is
  overwritten.  The lines of the standard output are inserted all the same: with a
  standard error none of whose non-empty lines carries that id, the entry for the id is
  the item parsed from a line of the standard output.
\<close>

theorem stderr_entry_overwrites:
  assumes "stderrLine \<in> set (splitKeep (\<lambda>c. c = CHR 0x0A) stderrBytes)" and "stderrLine \<noteq> []"
  shows "map_of (parseDumpMap fromJson stdoutBytes stderrBytes) (getStreamId stderrLine)
           = Some (StreamInfo_new\<lparr> stream_id := getStreamId stderrLine, m_error := ErrorUnavailable \<rparr>)
     \<and> (stdoutLine \<in> set (splitKeep (\<lambda>c. c = CHR 0x0A) stdoutBytes) \<and> stdoutLine \<noteq> []
          \<and> fromJson stdoutLine \<noteq> None
          \<and> stream_id (parseDumpItemStdOut fromJson stdoutLine) = getStreamId stderrLine \<longrightarrow>
            m_error (parseDumpItemStdOut fromJson stdoutLine) = NoError
          \<and> map_of (parseDumpMap fromJson stdoutBytes stderrBytes) (getStreamId stderrLine)
               \<noteq> Some (parseDumpItemStdOut fromJson stdoutLine)
          \<and> ((\<forall>l'. l' \<in> set (splitKeep (\<lambda>c. c = CHR 0x0A) otherStderrBytes) \<and> l' \<noteq> []
                     \<longrightarrow> getStreamId l' \<noteq> getStreamId stderrLine) \<longrightarrow>
               (\<exists>l. l \<in> set (splitKeep (\<lambda>c. c = CHR 0x0A) stdoutBytes) \<and> l \<noteq> []
                  \<and> stream_id (parseDumpItemStdOut fromJson l) = getStreamId stderrLine
                  \<and> map_of (parseDumpMap fromJson stdoutBytes otherStderrBytes) (getStreamId stderrLine)
                      = Some (parseDumpItemStdOut fromJson l))))"
proof -
  let ?i = "getStreamId stderrLine"
  let ?stub = "StreamInfo_new\<lparr> stream_id := ?i, m_error := ErrorUnavailable \<rparr>"
  let ?Pe = "\<lambda>l. l \<noteq> [] \<and> getStreamId l = ?i"
  let ?Po = "\<lambda>l. l \<noteq> [] \<and> stream_id (parseDumpItemStdOut fromJson l) = ?i"
  have "?Pe stderrLine" using assms(2) by simp
  from find_rev_ex[of stderrLine _ ?Pe, OF assms(1) this]
  obtain y where "find ?Pe (rev (splitKeep (\<lambda>c. c = CHR 0x0A) stderrBytes)) = Some y" ..
  then have 1: "map_of (parseDumpMap fromJson stdoutBytes stderrBytes) ?i = Some ?stub"
    by (simp add: parseDumpMap_lookup)
  have 2: "m_error (parseDumpItemStdOut fromJson stdoutLine) = NoError
      \<and> map_of (parseDumpMap fromJson stdoutBytes stderrBytes) ?i
           \<noteq> Some (parseDumpItemStdOut fromJson stdoutLine)"
    if "fromJson stdoutLine \<noteq> None"
  proof -
    from that have e: "m_error (parseDumpItemStdOut fromJson stdoutLine) = NoError"
      by (auto simp: parseDumpItemStdOut_def setError_def Let_def)
    have "?stub \<noteq> parseDumpItemStdOut fromJson stdoutLine"
    proof
      assume "?stub = parseDumpItemStdOut fromJson stdoutLine"
      then have "m_error ?stub = m_error (parseDumpItemStdOut fromJson stdoutLine)" by (rule arg_cong)
      with e show False by simp
    qed
    with e 1 show ?thesis by simp
  qed
  have 3: "\<exists>l. l \<in> set (splitKeep (\<lambda>c. c = CHR 0x0A) stdoutBytes) \<and> l \<noteq> []
                  \<and> stream_id (parseDumpItemStdOut fromJson l) = ?i
                  \<and> map_of (parseDumpMap fromJson stdoutBytes otherStderrBytes) ?i
                      = Some (parseDumpItemStdOut fromJson l)"
    if mem: "stdoutLine \<in> set (splitKeep (\<lambda>c. c = CHR 0x0A) stdoutBytes)" and ne: "stdoutLine \<noteq> []"
      and sid: "stream_id (parseDumpItemStdOut fromJson stdoutLine) = ?i"
      and none: "\<forall>l'. l' \<in> set (splitKeep (\<lambda>c. c = CHR 0x0A) otherStderrBytes) \<and> l' \<noteq> []
                     \<longrightarrow> getStreamId l' \<noteq> ?i"
  proof -
    from none have n: "find ?Pe (rev (splitKeep (\<lambda>c. c = CHR 0x0A) otherStderrBytes)) = None"
      by (auto simp: find_None_iff)
    have "?Po stdoutLine" using ne sid by simp
    from find_rev_ex[of stdoutLine _ ?Po, OF mem this]
    obtain l where l: "find ?Po (rev (splitKeep (\<lambda>c. c = CHR 0x0A) stdoutBytes)) = Some l" ..
    from find_Some_mem[OF l] have "l \<in> set (splitKeep (\<lambda>c. c = CHR 0x0A) stdoutBytes)"
      and "l \<noteq> []" and "stream_id (parseDumpItemStdOut fromJson l) = ?i" by simp_all
    moreover from n l have "map_of (parseDumpMap fromJson stdoutBytes otherStderrBytes) ?i
        = Some (parseDumpItemStdOut fromJson l)"
      by (simp add: parseDumpMap_lookup)
    ultimately show ?thesis by (intro exI[of _ l] conjI)
  qed
  from 1 2 3 show ?thesis by (intro conjI impI) auto
qed


theorem stderr_entry_overwrites_witness:
  "getStreamId ''ERROR: b: Video unavailable'' = QLatin1String ''b''
   \<and> stream_id (parseDumpItemStdOut fromJsonStrings (jsonLine [(''id'', ''b''), (''title'', ''Second'')]))
      = QLatin1String ''b''
   \<and> m_error (parseDumpItemStdOut fromJsonStrings (jsonLine [(''id'', ''b''), (''title'', ''Second'')]))
      = NoError
   \<and> defaultTitle (parseDumpItemStdOut fromJsonStrings (jsonLine [(''id'', ''b''), (''title'', ''Second'')]))
      = QLatin1String ''Second''
   \<and> map_of (parseDumpMap fromJsonStrings
               (jsonLine [(''id'', ''b''), (''title'', ''Second'')] @ [CHR 0x0A])
               (''ERROR: b: Video unavailable'' @ [CHR 0x0A]))
        (QLatin1String ''b'')
      = Some (StreamInfo_new\<lparr> stream_id := QLatin1String ''b'', m_error := ErrorUnavailable \<rparr>)
   \<and> map_of (parseDumpMap fromJsonStrings
               (jsonLine [(''id'', ''b''), (''title'', ''Second'')] @ [CHR 0x0A])
               (''ERROR: b: Video unavailable'' @ [CHR 0x0A]))
        (QLatin1String ''b'')
      \<noteq> Some (parseDumpItemStdOut fromJsonStrings (jsonLine [(''id'', ''b''), (''title'', ''Second'')]))
   \<and> map_of (parseDumpMap fromJsonStrings
               (jsonLine [(''id'', ''b''), (''title'', ''Second'')] @ [CHR 0x0A])
               (''ERROR: a: Video unavailable'' @ [CHR 0x0A]))
        (QLatin1String ''b'')
      = Some (parseDumpItemStdOut fromJsonStrings (jsonLine [(''id'', ''b''), (''title'', ''Second'')]))"
proof -
  let ?line = "jsonLine [(''id'', ''b''), (''title'', ''Second'')]"
  let ?out = "?line @ [CHR 0x0A]"
  let ?err = "''ERROR: b: Video unavailable'' @ [CHR 0x0A]"
  let ?other = "''ERROR: a: Video unavailable'' @ [CHR 0x0A]"
  have outv: "stream_id (parseDumpItemStdOut fromJsonStrings ?line) = QLatin1String ''b''
     \<and> m_error (parseDumpItemStdOut fromJsonStrings ?line) = NoError
     \<and> defaultTitle (parseDumpItemStdOut fromJsonStrings ?line) = QLatin1String ''Second''"
    by (simp add: json_eval collector_eval)
  have js: "fromJsonStrings ?line \<noteq> None"
    by (simp add: json_eval collector_eval)
  have sid: "getStreamId ''ERROR: b: Video unavailable'' = QLatin1String ''b''"
    by (simp add: collector_eval)
  have sida: "getStreamId ''ERROR: a: Video unavailable'' \<noteq> QLatin1String ''b''"
    by (simp add: collector_eval)
  have l: "''ERROR: b: Video unavailable'' \<in> set (splitKeep (\<lambda>c. c = CHR 0x0A) ?err)"
    by simp
  have ne: "''ERROR: b: Video unavailable'' \<noteq> []" by simp
  have outs: "splitKeep (\<lambda>c. c = CHR 0x0A) ?out = [?line, []]"
    by (simp add: json_eval)
  have lne: "?line \<noteq> []" by (simp add: json_eval)
  have others: "\<forall>l'. l' \<in> set (splitKeep (\<lambda>c. c = CHR 0x0A) ?other) \<and> l' \<noteq> []
       \<longrightarrow> getStreamId l' \<noteq> getStreamId ''ERROR: b: Video unavailable''"
    using sida unfolding sid by auto
  note inst = stderr_entry_overwrites[OF l ne, of fromJsonStrings ?out ?line ?other, unfolded sid]
  from inst have a: "map_of (parseDumpMap fromJsonStrings ?out ?err) (QLatin1String ''b'')
      = Some (StreamInfo_new\<lparr> stream_id := QLatin1String ''b'', m_error := ErrorUnavailable \<rparr>)"
    by (rule conjunct1)
  have hyp: "?line \<in> set (splitKeep (\<lambda>c. c = CHR 0x0A) ?out) \<and> ?line \<noteq> []
      \<and> fromJsonStrings ?line \<noteq> None
      \<and> stream_id (parseDumpItemStdOut fromJsonStrings ?line) = QLatin1String ''b''"
    using outs lne js outv by simp
  from inst[THEN conjunct2, rule_format, OF hyp]
  have b: "map_of (parseDumpMap fromJsonStrings ?out ?err) (QLatin1String ''b'')
        \<noteq> Some (parseDumpItemStdOut fromJsonStrings ?line)"
    and c: "(\<forall>l'. l' \<in> set (splitKeep (\<lambda>c. c = CHR 0x0A) ?other) \<and> l' \<noteq> []
                     \<longrightarrow> getStreamId l' \<noteq> QLatin1String ''b'') \<longrightarrow>
         (\<exists>l. l \<in> set (splitKeep (\<lambda>c. c = CHR 0x0A) ?out) \<and> l \<noteq> []
            \<and> stream_id (parseDumpItemStdOut fromJsonStrings l) = QLatin1String ''b''
            \<and> map_of (parseDumpMap fromJsonStrings ?out ?other) (QLatin1String ''b'')
                = Some (parseDumpItemStdOut fromJsonStrings l))"
    by simp_all
  from c others[unfolded sid] obtain l where
    lm: "l \<in> set (splitKeep (\<lambda>c. c = CHR 0x0A) ?out)" and ln: "l \<noteq> []"
    and lv: "map_of (parseDumpMap fromJsonStrings ?out ?other) (QLatin1String ''b'')
                = Some (parseDumpItemStdOut fromJsonStrings l)"
    by auto
  from lm ln have "l = ?line" unfolding outs by simp
  with lv have d: "map_of (parseDumpMap fromJsonStrings ?out ?other) (QLatin1String ''b'')
                = Some (parseDumpItemStdOut fromJsonStrings ?line)" by simp
  from sid outv a b d show ?thesis by (intro conjI) simp_all
qed

lemma createStreamInfo_reconciled:
  assumes "item_id item \<noteq> []"
  shows "(createStreamInfo d item)\<lparr> playlist_index := QString_number (int i) \<rparr>
      = reconciled (m_dumpMap d) item i"
  using assms
  by (cases "map_of (m_dumpMap d) (item_id item)")
     (simp_all add: createStreamInfo_def reconciled_def Let_def)

lemma collectLoop_map:
  assumes "\<forall>item\<in>set items. item_id item \<noteq> []"
  shows "collectLoop d (int n) items
      = map (\<lambda>i. reconciled (m_dumpMap d) (items ! i) (n + i + 1)) [0..<length items]"
  using assms
proof (induction items arbitrary: n)
  case Nil
  then show ?case by simp
next
  case (Cons item rest)
  have "collectLoop d (int n) (item # rest)
      = (createStreamInfo d item)\<lparr> playlist_index := QString_number (int (n + 1)) \<rparr>
          # collectLoop d (int (Suc n)) rest"
    by (simp add: add.commute)
  also have "(createStreamInfo d item)\<lparr> playlist_index := QString_number (int (n + 1)) \<rparr>
      = reconciled (m_dumpMap d) item (n + 1)"
    using Cons.prems by (intro createStreamInfo_reconciled) simp
  also have "collectLoop d (int (Suc n)) rest
      = map (\<lambda>i. reconciled (m_dumpMap d) (rest ! i) (Suc n + i + 1)) [0..<length rest]"
    using Cons.prems by (intro Cons.IH) simp
  also have "reconciled (m_dumpMap d) item (n + 1)
        # map (\<lambda>i. reconciled (m_dumpMap d) (rest ! i) (Suc n + i + 1)) [0..<length rest]
      = map (\<lambda>i. reconciled (m_dumpMap d) ((item # rest) ! i) (n + i + 1)) [0..<length (item # rest)]"
    by (simp add: map_upt_Suc del: upt_Suc)
  finally show ?case .
qed

lemma fold_invariant:
  "I acc \<Longrightarrow> (\<And>x a. I a \<Longrightarrow> I (f x a)) \<Longrightarrow> I (fold f xs acc)"
  by (induction xs arbitrary: acc) auto

lemma parseFlatList_ids:
  "\<forall>item\<in>set (parseFlatList fromJson stdoutBytes stderrBytes). item_id item \<noteq> []"
  unfolding parseFlatList_def
  by (rule fold_invariant) (auto simp: Let_def)


text \<open>
  Claim C3.  The flat list of the collector is made by \<open>parseFlatList\<close>, which keeps only
  the items with a non-empty id (\<open>parseFlatList_ids\<close>).  When the job was not cancelled
  and the dump map and the flat list are both non-empty, \<open>onFinished\<close> emits
  \<open>collected\<close> once, with the list whose \<open>i\<close>-th StreamInfo (counting from 1) is the one
  the spec describes for the \<open>i\<close>-th flat item (\<open>reconciled\<close>).
\<close>

theorem onFinished_reconciles:
  assumes "\<not> m_cancelled d" and "m_dumpMap d \<noteq> []" and "m_flatList d \<noteq> []"
    and "\<forall>item\<in>set (m_flatList d). item_id item \<noteq> []"
  shows "onFinished d =
     [EmitCollected (map (\<lambda>i. reconciled (m_dumpMap d) (m_flatList d ! i) (i + 1))
                       [0..<length (m_flatList d)])]"
  using assms collectLoop_map[OF assms(4), of d 0]
  by (simp add: onFinished_def)

theorem onFinished_reconciles_witness:
  "\<exists>L. onFinished ((StreamInfoDownloader_new [])\<lparr>
            m_dumpMap := parseDumpMap fromJsonStrings playlistDumpStdout playlistDumpStderr,
            m_flatList := parseFlatList fromJsonStrings playlistFlatStdout [] \<rparr>)
          = [EmitCollected L]
      \<and> map stream_id L = [QLatin1String ''a'', QLatin1String ''b'', QLatin1String ''c'']
      \<and> map m_error L = [NoError, ErrorUnavailable, NoError]
      \<and> map defaultTitle L = [QLatin1String ''First'', QLatin1String ''Second'', QLatin1String ''Third'']
      \<and> map webpage_url L = [QLatin1String ''ua'', QLatin1String ''ub'', QLatin1String ''uc'']
      \<and> map playlist_index L = [QLatin1String ''1'', QLatin1String ''2'', QLatin1String ''3'']"
proof -
  define d where "d = (StreamInfoDownloader_new [])\<lparr>
            m_dumpMap := parseDumpMap fromJsonStrings playlistDumpStdout playlistDumpStderr,
            m_flatList := parseFlatList fromJsonStrings playlistFlatStdout [] \<rparr>"
  define L where "L = map (\<lambda>i. reconciled (m_dumpMap d) (m_flatList d ! i) (i + 1))
                       [0..<length (m_flatList d)]"
  have h1: "\<not> m_cancelled d" by (simp add: d_def StreamInfoDownloader_new_def)
  have dm: "m_dumpMap d =
      [(QLatin1String ''a'', setError NoError (StreamInfo_new\<lparr> stream_id := QLatin1String ''a'',
           defaultTitle := QLatin1String ''First'', defaultSuffix := QLatin1String ''mp4'' \<rparr>)),
       (QLatin1String ''c'', setError NoError (StreamInfo_new\<lparr> stream_id := QLatin1String ''c'',
           defaultTitle := QLatin1String ''Third'', defaultSuffix := QLatin1String ''mp4'' \<rparr>)),
       (QLatin1String ''b'', setError ErrorUnavailable (StreamInfo_new\<lparr> stream_id := QLatin1String ''b'' \<rparr>))]"
    by (simp add: d_def json_eval collector_eval)
  have fl: "m_flatList d =
      [\<lparr> item_type = [], item_id = QLatin1String ''a'', ie_key = [],
         item_title = QLatin1String ''First'', item_url = QLatin1String ''ua'' \<rparr>,
       \<lparr> item_type = [], item_id = QLatin1String ''b'', ie_key = [],
         item_title = QLatin1String ''Second'', item_url = QLatin1String ''ub'' \<rparr>,
       \<lparr> item_type = [], item_id = QLatin1String ''c'', ie_key = [],
         item_title = QLatin1String ''Third'', item_url = QLatin1String ''uc'' \<rparr>]"
    by (simp add: d_def json_eval collector_eval)
  have h2: "m_dumpMap d \<noteq> []" by (simp add: dm)
  have h3: "m_flatList d \<noteq> []" by (simp add: fl)
  have h4: "\<forall>item\<in>set (m_flatList d). item_id item \<noteq> []"
    using parseFlatList_ids[of fromJsonStrings playlistFlatStdout "[]"] by (simp add: d_def)
  have run: "onFinished d = [EmitCollected L]"
    unfolding L_def by (rule onFinished_reconciles[OF h1 h2 h3 h4])
  have L: "L = [reconciled (m_dumpMap d) (m_flatList d ! 0) 1,
                reconciled (m_dumpMap d) (m_flatList d ! 1) 2,
                reconciled (m_dumpMap d) (m_flatList d ! 2) 3]"
    unfolding L_def by (simp add: fl upt_rec numeral_2_eq_2 numeral_3_eq_3)
  have vals: "map stream_id L = [QLatin1String ''a'', QLatin1String ''b'', QLatin1String ''c'']
      \<and> map m_error L = [NoError, ErrorUnavailable, NoError]
      \<and> map defaultTitle L = [QLatin1String ''First'', QLatin1String ''Second'', QLatin1String ''Third'']
      \<and> map webpage_url L = [QLatin1String ''ua'', QLatin1String ''ub'', QLatin1String ''uc'']
      \<and> map playlist_index L = [QLatin1String ''1'', QLatin1String ''2'', QLatin1String ''3'']"
    unfolding L dm fl
    by (simp add: reconciled_def QString_number_def setError_def StreamInfo_new_def
        QLatin1String_def QLatin1Char_def)
  from run vals show ?thesis
    unfolding d_def by (intro exI[of _ L] conjI) simp_all
qed

subsection \<open>The collector: the purge and the retry\<close>

lemma runAsync_facts:
  "m_streamCleanCache (fst (runAsync url d)) = m_streamCleanCache d
   \<and> doneCount (snd (runAsync url d)) = 0 \<and> purgeStarts (snd (runAsync url d)) = 0"
  by (simp add: runAsync_def runAsyncDumpJson_def runAsyncFlatList_def Let_def doneCount_def
      purgeStarts_def split: prod.splits)

lemma stop_facts:
  "m_streamCleanCache (fst (stop d)) = m_streamCleanCache d
   \<and> doneCount (snd (stop d)) = 0 \<and> purgeStarts (snd (stop d)) = 0"
  by (simp add: stop_def doneCount_def purgeStarts_def)

lemma onFinished_facts: "doneCount (onFinished d) = 0 \<and> purgeStarts (onFinished d) = 0"
  by (simp add: onFinished_def doneCount_def purgeStarts_def)

lemma onFinishedFlatList_facts:
  "m_streamCleanCache (fst (onFinishedFlatList fj d c s out err)) = m_streamCleanCache d
   \<and> doneCount (snd (onFinishedFlatList fj d c s out err)) = 0
   \<and> purgeStarts (snd (onFinishedFlatList fj d c s out err)) = 0"
  using onFinished_facts
  by (simp add: onFinishedFlatList_def Let_def) (simp add: doneCount_def purgeStarts_def)

lemma onFinishedDumpJson_facts:
  "doneCount (snd (onFinishedDumpJson fj d c s out err)) = 0
   \<and> isCleaned (fst (onFinishedDumpJson fj d c s out err)) = isCleaned d
   \<and> (isCleaned d \<longrightarrow> \<not> purgeRunning d \<longrightarrow> \<not> purgeRunning (fst (onFinishedDumpJson fj d c s out err)))
   \<and> (purgeStarts (snd (onFinishedDumpJson fj d c s out err)) > 0 \<longrightarrow>
        s = NormalExit \<and> c \<noteq> C_EXIT_SUCCESS \<and> length (parseDumpMap fj out err) \<le> 1 \<and> \<not> isCleaned d)"
  using onFinished_facts
  by (simp add: onFinishedDumpJson_def Let_def stop_def StreamCleanCache_runAsync_def
        split: prod.splits)
     (auto simp: doneCount_def purgeStarts_def)

lemma cleanFinished_eq:
  "StreamCleanCache_onFinished d c s =
     (fst (runAsync (m_infoUrl d)
            (d\<lparr> m_streamCleanCache := (m_streamCleanCache d)\<lparr> m_isCleaned := True \<rparr> \<rparr>)),
      EmitDone # snd (runAsync (m_infoUrl d)
            (d\<lparr> m_streamCleanCache := (m_streamCleanCache d)\<lparr> m_isCleaned := True \<rparr> \<rparr>)))"
  by (simp add: StreamCleanCache_onFinished_def onCacheCleaned_def Let_def split: prod.splits)

lemma cleanFinished_facts:
  "doneCount (snd (StreamCleanCache_onFinished d c s)) = 1
   \<and> purgeStarts (snd (StreamCleanCache_onFinished d c s)) = 0
   \<and> isCleaned (fst (StreamCleanCache_onFinished d c s))
   \<and> purgeRunning (fst (StreamCleanCache_onFinished d c s)) = purgeRunning d"
proof -
  let ?d1 = "d\<lparr> m_streamCleanCache := (m_streamCleanCache d)\<lparr> m_isCleaned := True \<rparr> \<rparr>"
  from runAsync_facts[of "m_infoUrl d" ?d1]
  have a: "m_streamCleanCache (fst (runAsync (m_infoUrl d) ?d1)) = m_streamCleanCache ?d1"
    and b: "doneCount (snd (runAsync (m_infoUrl d) ?d1)) = 0"
    and c: "purgeStarts (snd (runAsync (m_infoUrl d) ?d1)) = 0"
    by blast+
  have "doneCount (EmitDone # es) = Suc (doneCount es)" for es
    by (simp add: doneCount_def)
  moreover have "purgeStarts (EmitDone # es) = purgeStarts es" for es
    by (simp add: purgeStarts_def)
  ultimately show ?thesis
    unfolding cleanFinished_eq using a b c by simp
qed

lemma setNotRunning_clean:
  "isCleaned (setNotRunning p d) = isCleaned d"
  "purgeRunning (setNotRunning p d) = (p \<noteq> ProcessCleanCache \<and> purgeRunning d)"
  "dumpRunning (setNotRunning p d) = (p \<noteq> ProcessDumpJson \<and> dumpRunning d)"
  by (cases p; simp add: setNotRunning_def)+

lemma onError_facts:
  "m_streamCleanCache (fst (onError d)) = m_streamCleanCache d
   \<and> doneCount (snd (onError d)) = 0 \<and> purgeStarts (snd (onError d)) = 0"
  by (simp add: onError_def doneCount_def purgeStarts_def)

lemma count_Nil: "doneCount [] = 0" "purgeStarts [] = 0"
  by (simp_all add: doneCount_def purgeStarts_def)

lemma count_append:
  "doneCount (a @ b) = doneCount a + doneCount b"
  "purgeStarts (a @ b) = purgeStarts a + purgeStarts b"
  by (simp_all add: doneCount_def purgeStarts_def)

lemma step_Finished_dump:
  "step fj d (Finished ProcessDumpJson c s out err) =
     (if dumpRunning d then onFinishedDumpJson fj (setNotRunning ProcessDumpJson d) c s out err
      else (d, []))"
  by (simp add: step_def isRunning_def)

lemma step_Finished_flat:
  "step fj d (Finished ProcessFlatList c s out err) =
     (if flatRunning d then onFinishedFlatList fj (setNotRunning ProcessFlatList d) c s out err
      else (d, []))"
  by (simp add: step_def isRunning_def)

lemma step_Finished_clean:
  "step fj d (Finished ProcessCleanCache c s out err) =
     (if purgeRunning d then StreamCleanCache_onFinished (setNotRunning ProcessCleanCache d) c s
      else (d, []))"
  by (simp add: step_def isRunning_def)

lemma step_Error:
  "step fj d (ErrorOccurred p e) =
     (if \<not> isRunning d p then (d, [])
      else if p = ProcessCleanCache
      then (if e = FailedToStart then setNotRunning p d else d, [])
      else onError (if e = FailedToStart then setNotRunning p d else d))"
  by (simp add: step_def Let_def)

lemma step_purge:
  assumes "purgeStarts (snd (step fj d ev)) > 0"
  shows "\<exists>c out err. ev = Finished ProcessDumpJson c NormalExit out err \<and> c \<noteq> C_EXIT_SUCCESS
           \<and> length (parseDumpMap fj out err) \<le> 1 \<and> \<not> isCleaned d \<and> dumpRunning d"
proof (cases ev)
  case (CallRunAsync url)
  with assms runAsync_facts[of url d] show ?thesis by (simp add: step_def)
next
  case CallStop
  with assms stop_facts[of d] show ?thesis by (simp add: step_def)
next
  case (Finished p c s out err)
  show ?thesis
  proof (cases p)
    case ProcessDumpJson
    with assms Finished have run: "dumpRunning d"
      and pos: "purgeStarts (snd (onFinishedDumpJson fj (setNotRunning ProcessDumpJson d) c s out err)) > 0"
      by (auto simp: step_Finished_dump count_Nil split: if_splits)
    from pos onFinishedDumpJson_facts[of fj "setNotRunning ProcessDumpJson d" c s out err]
    have "s = NormalExit \<and> c \<noteq> C_EXIT_SUCCESS \<and> length (parseDumpMap fj out err) \<le> 1
        \<and> \<not> isCleaned (setNotRunning ProcessDumpJson d)" by blast
    with run Finished ProcessDumpJson show ?thesis by (simp add: setNotRunning_clean)
  next
    case ProcessFlatList
    with assms Finished onFinishedFlatList_facts[of fj "setNotRunning ProcessFlatList d" c s out err]
    show ?thesis by (simp add: step_Finished_flat count_Nil split: if_splits)
  next
    case ProcessCleanCache
    with assms Finished cleanFinished_facts[of "setNotRunning ProcessCleanCache d" c s]
    show ?thesis by (simp add: step_Finished_clean count_Nil split: if_splits)
  qed
next
  case (ErrorOccurred p e)
  with assms onError_facts show ?thesis
    by (simp add: step_Error count_Nil split: if_splits)
qed

lemma step_inv:
  assumes "cleanInv d"
  shows "cleanInv (fst (step fj d ev))
     \<and> doneCount (snd (step fj d ev)) \<le> 1
     \<and> (doneCount (snd (step fj d ev)) = 1 \<longrightarrow> \<not> isCleaned d \<and> purgeRunning d \<and> isCleaned (fst (step fj d ev)))
     \<and> (isCleaned d \<longrightarrow> isCleaned (fst (step fj d ev)) \<and> purgeStarts (snd (step fj d ev)) = 0)"
proof (cases ev)
  case (CallRunAsync url)
  with assms runAsync_facts[of url d] show ?thesis by (simp add: step_def cleanInv_def)
next
  case CallStop
  with assms stop_facts[of d] show ?thesis by (simp add: step_def cleanInv_def)
next
  case (Finished p c s out err)
  show ?thesis
  proof (cases p)
    case ProcessDumpJson
    let ?d0 = "setNotRunning ProcessDumpJson d"
    from onFinishedDumpJson_facts[of fj ?d0 c s out err] step_purge[of fj d ev]
    show ?thesis using assms Finished ProcessDumpJson
      by (cases "dumpRunning d") (auto simp: step_Finished_dump count_Nil cleanInv_def setNotRunning_clean)
  next
    case ProcessFlatList
    with assms Finished onFinishedFlatList_facts[of fj "setNotRunning ProcessFlatList d" c s out err]
    show ?thesis
      by (cases "flatRunning d")
         (simp_all add: step_Finished_flat count_Nil cleanInv_def setNotRunning_clean)
  next
    case ProcessCleanCache
    with assms Finished cleanFinished_facts[of "setNotRunning ProcessCleanCache d" c s]
    show ?thesis
      by (cases "purgeRunning d")
         (simp_all add: step_Finished_clean count_Nil cleanInv_def setNotRunning_clean)
  qed
next
  case (ErrorOccurred p e)
  with assms onError_facts[of "setNotRunning p d"] onError_facts[of d] show ?thesis
    by (auto simp: step_Error count_Nil cleanInv_def setNotRunning_clean)
qed

lemma run_inv:
  assumes "cleanInv d"
  shows "cleanInv (fst (run fj d evs))
     \<and> doneCount (snd (run fj d evs)) + (if isCleaned d then 1 else 0) \<le> 1
     \<and> (isCleaned d \<longrightarrow> isCleaned (fst (run fj d evs)) \<and> purgeStarts (snd (run fj d evs)) = 0)"
  using assms
proof (induction evs arbitrary: d)
  case Nil
  then show ?case by (simp add: count_Nil)
next
  case (Cons ev evs)
  let ?d1 = "fst (step fj d ev)"
  let ?es1 = "snd (step fj d ev)"
  have r: "run fj d (ev # evs) = (fst (run fj ?d1 evs), ?es1 @ snd (run fj ?d1 evs))"
    by (simp add: Let_def split: prod.splits)
  from step_inv[OF Cons.prems, of fj ev] have
    i1: "cleanInv ?d1" and c1: "doneCount ?es1 \<le> 1"
    and c2: "doneCount ?es1 = 1 \<longrightarrow> \<not> isCleaned d \<and> purgeRunning d \<and> isCleaned ?d1"
    and c3: "isCleaned d \<longrightarrow> isCleaned ?d1 \<and> purgeStarts ?es1 = 0"
    by blast+
  from Cons.IH[OF i1] have
    j1: "cleanInv (fst (run fj ?d1 evs))"
    and j2: "doneCount (snd (run fj ?d1 evs)) + (if isCleaned ?d1 then 1 else 0) \<le> 1"
    and j3: "isCleaned ?d1 \<longrightarrow> isCleaned (fst (run fj ?d1 evs)) \<and> purgeStarts (snd (run fj ?d1 evs)) = 0"
    by blast+
  from c1 c2 c3 j2 have "doneCount (?es1 @ snd (run fj ?d1 evs)) + (if isCleaned d then 1 else 0) \<le> 1"
    by (auto simp: count_append split: if_splits)
  moreover from c3 j3 have "isCleaned d \<longrightarrow> isCleaned (fst (run fj ?d1 evs))
      \<and> purgeStarts (?es1 @ snd (run fj ?d1 evs)) = 0"
    by (simp add: count_append)
  ultimately show ?case using j1 unfolding r by simp
qed


lemma onFinishedDumpJson_starts:
  "purgeStarts (snd (onFinishedDumpJson fj d c s out err)) \<le> 1
   \<and> (purgeStarts (snd (onFinishedDumpJson fj d c s out err)) > 0 \<longrightarrow>
        purgeRunning (fst (onFinishedDumpJson fj d c s out err)))
   \<and> (purgeRunning d \<longrightarrow> purgeStarts (snd (onFinishedDumpJson fj d c s out err)) = 0
        \<and> purgeRunning (fst (onFinishedDumpJson fj d c s out err)))"
  using onFinished_facts
  by (simp add: onFinishedDumpJson_def Let_def stop_def StreamCleanCache_runAsync_def
        split: prod.splits)
     (auto simp: doneCount_def purgeStarts_def)

lemma step_used:
  assumes "ev \<noteq> ErrorOccurred ProcessCleanCache FailedToStart"
  shows "purgeStarts (snd (step fj d ev)) \<le> 1
     \<and> (purgeUsed d \<longrightarrow> purgeStarts (snd (step fj d ev)) = 0 \<and> purgeUsed (fst (step fj d ev)))
     \<and> (purgeStarts (snd (step fj d ev)) > 0 \<longrightarrow> purgeUsed (fst (step fj d ev)))"
proof (cases ev)
  case (CallRunAsync url)
  with runAsync_facts[of url d] show ?thesis by (simp add: step_def purgeUsed_def)
next
  case CallStop
  with stop_facts[of d] show ?thesis by (simp add: step_def purgeUsed_def)
next
  case (Finished p c s out err)
  show ?thesis
  proof (cases p)
    case ProcessDumpJson
    let ?d0 = "setNotRunning ProcessDumpJson d"
    from onFinishedDumpJson_facts[of fj ?d0 c s out err] onFinishedDumpJson_starts[of fj ?d0 c s out err]
    show ?thesis using Finished ProcessDumpJson
      by (cases "dumpRunning d")
         (auto simp: step_Finished_dump count_Nil purgeUsed_def setNotRunning_clean)
  next
    case ProcessFlatList
    with Finished onFinishedFlatList_facts[of fj "setNotRunning ProcessFlatList d" c s out err]
    show ?thesis
      by (cases "flatRunning d")
         (simp_all add: step_Finished_flat count_Nil purgeUsed_def setNotRunning_clean)
  next
    case ProcessCleanCache
    with Finished cleanFinished_facts[of "setNotRunning ProcessCleanCache d" c s]
    show ?thesis
      by (cases "purgeRunning d")
         (simp_all add: step_Finished_clean count_Nil purgeUsed_def setNotRunning_clean)
  qed
next
  case (ErrorOccurred p e)
  with assms onError_facts[of "setNotRunning p d"] onError_facts[of d] show ?thesis
    by (auto simp: step_Error count_Nil purgeUsed_def setNotRunning_clean)
qed

lemma run_used:
  assumes "\<forall>ev\<in>set evs. ev \<noteq> ErrorOccurred ProcessCleanCache FailedToStart"
  shows "purgeStarts (snd (run fj d evs)) + (if purgeUsed d then 1 else 0) \<le> 1"
  using assms
proof (induction evs arbitrary: d)
  case Nil
  then show ?case by (simp add: count_Nil)
next
  case (Cons ev evs)
  let ?d1 = "fst (step fj d ev)"
  let ?es1 = "snd (step fj d ev)"
  have r: "run fj d (ev # evs) = (fst (run fj ?d1 evs), ?es1 @ snd (run fj ?d1 evs))"
    by (simp add: Let_def split: prod.splits)
  from Cons.prems have ne: "ev \<noteq> ErrorOccurred ProcessCleanCache FailedToStart" by simp
  from step_used[OF ne, of fj d] have
    a: "purgeStarts ?es1 \<le> 1"
    and b: "purgeUsed d \<longrightarrow> purgeStarts ?es1 = 0 \<and> purgeUsed ?d1"
    and c: "purgeStarts ?es1 > 0 \<longrightarrow> purgeUsed ?d1"
    by blast+
  from Cons.prems have "\<forall>ev\<in>set evs. ev \<noteq> ErrorOccurred ProcessCleanCache FailedToStart" by simp
  from Cons.IH[OF this, of ?d1]
  have j: "purgeStarts (snd (run fj ?d1 evs)) + (if purgeUsed ?d1 then 1 else 0) \<le> 1" .
  from a b c j show ?case
    unfolding r by (auto simp: count_append split: if_splits)
qed

lemma cleanInv_new: "cleanInv (StreamInfoDownloader_new userAgent)"
  by (simp add: cleanInv_def StreamInfoDownloader_new_def)

text \<open>
  What the code guarantees of the purge, for every \<open>fromJson\<close>.
  \<^item> A step starts the purge only when it is the end of the dump process with a normal
    exit and a non-zero code, the parsed dump map has at most one entry and the flag
    \<open>isCleaned\<close> is not set.  (The code tests the flag; it keeps no record of a purge
    that was started.)
  \<^item> The end of the purge process sets the flag and emits \<open>done\<close> (which calls \<open>runAsync\<close>
    again) whatever its exit code and exit status are.
  \<^item> In a state reached in the lifetime of a collector where the flag is set, no later
    event starts the purge or emits \<open>done\<close>.
  \<^item> In the whole lifetime of a collector, \<open>done\<close> is emitted, and so \<open>runAsync\<close> is
    called by \<open>onCacheCleaned\<close>, at most once.
  \<^item> In a lifetime in which the purge process never fails to start, the purge is started
    at most once.
\<close>

lemma purge_retry_guarantees:
  "(purgeStarts (snd (step fromJson d ev)) > 0 \<longrightarrow>
      (\<exists>exitCode out err.
          ev = Finished ProcessDumpJson exitCode NormalExit out err
          \<and> exitCode \<noteq> C_EXIT_SUCCESS
          \<and> length (parseDumpMap fromJson out err) \<le> 1
          \<and> \<not> isCleaned d \<and> dumpRunning d))
   \<and> (purgeRunning d' \<longrightarrow>
         isCleaned (fst (step fromJson d' (Finished ProcessCleanCache exitCode' exitStatus' out' err')))
         \<and> doneCount (snd (step fromJson d' (Finished ProcessCleanCache exitCode' exitStatus' out' err'))) = 1
         \<and> snd (step fromJson d' (Finished ProcessCleanCache exitCode' exitStatus' out' err'))
             = EmitDone # snd (onCacheCleaned
                 ((setNotRunning ProcessCleanCache d')\<lparr> m_streamCleanCache :=
                    (m_streamCleanCache (setNotRunning ProcessCleanCache d'))\<lparr> m_isCleaned := True \<rparr> \<rparr>)))
   \<and> (isCleaned (fst (run fromJson (StreamInfoDownloader_new userAgent) reached)) \<longrightarrow>
         purgeStarts (snd (run fromJson
            (fst (run fromJson (StreamInfoDownloader_new userAgent) reached)) later)) = 0
         \<and> doneCount (snd (run fromJson
            (fst (run fromJson (StreamInfoDownloader_new userAgent) reached)) later)) = 0)
   \<and> doneCount (snd (run fromJson (StreamInfoDownloader_new userAgent) lifetime)) \<le> 1
   \<and> ((\<forall>e\<in>set lifetime'. e \<noteq> ErrorOccurred ProcessCleanCache FailedToStart) \<longrightarrow>
         purgeStarts (snd (run fromJson (StreamInfoDownloader_new userAgent) lifetime')) \<le> 1)"
proof (intro conjI impI)
  assume "purgeStarts (snd (step fromJson d ev)) > 0"
  then show "\<exists>exitCode out err.
          ev = Finished ProcessDumpJson exitCode NormalExit out err
          \<and> exitCode \<noteq> C_EXIT_SUCCESS
          \<and> length (parseDumpMap fromJson out err) \<le> 1
          \<and> \<not> isCleaned d \<and> dumpRunning d"
    by (rule step_purge)
next
  assume r: "purgeRunning d'"
  with cleanFinished_facts[of "setNotRunning ProcessCleanCache d'" exitCode' exitStatus']
  show "isCleaned (fst (step fromJson d' (Finished ProcessCleanCache exitCode' exitStatus' out' err')))"
    and "doneCount (snd (step fromJson d' (Finished ProcessCleanCache exitCode' exitStatus' out' err'))) = 1"
    by (simp_all add: step_Finished_clean)
  from r show "snd (step fromJson d' (Finished ProcessCleanCache exitCode' exitStatus' out' err'))
             = EmitDone # snd (onCacheCleaned
                 ((setNotRunning ProcessCleanCache d')\<lparr> m_streamCleanCache :=
                    (m_streamCleanCache (setNotRunning ProcessCleanCache d'))\<lparr> m_isCleaned := True \<rparr> \<rparr>))"
    by (simp add: step_Finished_clean cleanFinished_eq onCacheCleaned_def setNotRunning_def)
next
  let ?d = "fst (run fromJson (StreamInfoDownloader_new userAgent) reached)"
  assume c: "isCleaned ?d"
  from run_inv[OF cleanInv_new, of fromJson userAgent reached] have "cleanInv ?d" by blast
  from run_inv[OF this, of fromJson later] c
  show "purgeStarts (snd (run fromJson ?d later)) = 0" and "doneCount (snd (run fromJson ?d later)) = 0"
    by simp_all
next
  from run_inv[OF cleanInv_new, of fromJson userAgent lifetime]
  show "doneCount (snd (run fromJson (StreamInfoDownloader_new userAgent) lifetime)) \<le> 1"
    by (simp split: if_splits)
next
  assume "\<forall>e\<in>set lifetime'. e \<noteq> ErrorOccurred ProcessCleanCache FailedToStart"
  from run_used[OF this, of fromJson "StreamInfoDownloader_new userAgent"]
  show "purgeStarts (snd (run fromJson (StreamInfoDownloader_new userAgent) lifetime')) \<le> 1"
    by (simp split: if_splits)
qed

lemmas life_eval = failingLifetime_def sampleUrl_def step_def isRunning_def setNotRunning_def
  runAsync_def runAsyncDumpJson_def runAsyncFlatList_def userAgentArguments_def stop_def
  onFinishedDumpJson_def onFinishedFlatList_def onFinished_def StreamCleanCache_runAsync_def
  StreamCleanCache_onFinished_def onCacheCleaned_def StreamInfoDownloader_new_def
  parseDumpMap_def C_EXIT_SUCCESS_def Let_def purgeStarts_def doneCount_def

lemma purge_retry_guarantees_example:
  "purgeStarts (snd (step fromJsonStrings
       (fst (run fromJsonStrings (StreamInfoDownloader_new []) (take 1 failingLifetime)))
       (Finished ProcessDumpJson 1 NormalExit [] []))) = 1
   \<and> \<not> isCleaned (fst (run fromJsonStrings (StreamInfoDownloader_new []) (take 1 failingLifetime)))
   \<and> dumpRunning (fst (run fromJsonStrings (StreamInfoDownloader_new []) (take 1 failingLifetime)))
   \<and> purgeRunning (fst (run fromJsonStrings (StreamInfoDownloader_new []) (take 3 failingLifetime)))
   \<and> isCleaned (fst (step fromJsonStrings
       (fst (run fromJsonStrings (StreamInfoDownloader_new []) (take 3 failingLifetime)))
       (Finished ProcessCleanCache 1 CrashExit [] [])))
   \<and> isCleaned (fst (run fromJsonStrings (StreamInfoDownloader_new []) (take 4 failingLifetime)))
   \<and> purgeStarts (snd (run fromJsonStrings
       (fst (run fromJsonStrings (StreamInfoDownloader_new []) (take 4 failingLifetime)))
       (drop 4 failingLifetime))) = 0
   \<and> doneCount (snd (run fromJsonStrings (StreamInfoDownloader_new []) failingLifetime)) = 1
   \<and> list_all (\<lambda>e. e \<noteq> ErrorOccurred ProcessCleanCache FailedToStart) failingLifetime
   \<and> purgeStarts (snd (run fromJsonStrings (StreamInfoDownloader_new []) failingLifetime)) = 1"
proof -
  let ?D1 = "fst (run fromJsonStrings (StreamInfoDownloader_new []) (take 1 failingLifetime))"
  let ?D3 = "fst (run fromJsonStrings (StreamInfoDownloader_new []) (take 3 failingLifetime))"
  let ?D4 = "fst (run fromJsonStrings (StreamInfoDownloader_new []) (take 4 failingLifetime))"
  have e1: "purgeStarts (snd (step fromJsonStrings ?D1 (Finished ProcessDumpJson 1 NormalExit [] []))) = 1"
    by (simp add: life_eval)
  then have h1: "purgeStarts (snd (step fromJsonStrings ?D1 (Finished ProcessDumpJson 1 NormalExit [] []))) > 0"
    by simp
  have h2: "purgeRunning ?D3" by (simp add: life_eval)
  have h3: "isCleaned ?D4" by (simp add: life_eval)
  have e2: "doneCount (snd (run fromJsonStrings (StreamInfoDownloader_new []) failingLifetime)) = 1
     \<and> purgeStarts (snd (run fromJsonStrings (StreamInfoDownloader_new []) failingLifetime)) = 1"
    by (simp add: life_eval)
  note inst = purge_retry_guarantees[where fromJson = fromJsonStrings and d = "?D1"
      and ev = "Finished ProcessDumpJson 1 NormalExit [] []" and d' = "?D3" and exitCode' = 1
      and exitStatus' = CrashExit and out' = "[]" and err' = "[]" and userAgent = "[]"
      and reached = "take 4 failingLifetime" and later = "drop 4 failingLifetime"
      and lifetime = failingLifetime and lifetime' = failingLifetime]
  have h4: "\<forall>e\<in>set failingLifetime. e \<noteq> ErrorOccurred ProcessCleanCache FailedToStart"
    by (simp add: failingLifetime_def)
  from inst h4 have d: "purgeStarts (snd (run fromJsonStrings (StreamInfoDownloader_new []) failingLifetime)) \<le> 1"
    by simp
  from h4 have h4': "list_all (\<lambda>e. e \<noteq> ErrorOccurred ProcessCleanCache FailedToStart) failingLifetime"
    by (simp add: list_all_iff)
  from inst h1 have a: "\<not> isCleaned ?D1 \<and> dumpRunning ?D1" by auto
  from inst h2 have b: "isCleaned (fst (step fromJsonStrings ?D3 (Finished ProcessCleanCache 1 CrashExit [] [])))"
    by simp
  from inst h3 have c: "purgeStarts (snd (run fromJsonStrings ?D4 (drop 4 failingLifetime))) = 0"
    by simp
  from e1 a h2 b h3 c e2 h4' show ?thesis by (intro conjI) simp_all
qed

text \<open>
  Claim C4 fails on the code.  The slot \<open>StreamCleanCache::onFinished\<close> sets the flag
  for every exit code and exit status, "to avoid being redone" as its comment says, but
  the slot \<open>StreamCleanCache::onError\<close> only writes a log.  A purge process that fails to
  start sends \<open>errorOccurred\<close> and never \<open>finished\<close>, so the flag stays unset and \<open>done\<close>
  is not emitted.  In \<open>startFailureLifetime\<close>, for every \<open>fromJson\<close>: after the first
  three events (the owner calls \<open>runAsync\<close>, the dump exits with code 1 and no output,
  the purge process fails to start) the purge has been started once, it is not running,
  the flag is unset and \<open>done\<close> was not emitted; after the flat list has ended and the
  owner has called \<open>runAsync\<close> again, the end of the second failing dump starts the purge
  a second time.  In the whole lifetime the purge is started twice and \<open>done\<close> is never
  emitted.
\<close>

theorem purge_redone_after_start_failure:
  "purgeStarts (snd (run fromJson (StreamInfoDownloader_new []) (take 3 startFailureLifetime))) = 1
   \<and> \<not> purgeRunning (fst (run fromJson (StreamInfoDownloader_new []) (take 3 startFailureLifetime)))
   \<and> \<not> isCleaned (fst (run fromJson (StreamInfoDownloader_new []) (take 3 startFailureLifetime)))
   \<and> doneCount (snd (run fromJson (StreamInfoDownloader_new []) (take 3 startFailureLifetime))) = 0
   \<and> purgeStarts (snd (step fromJson
         (fst (run fromJson (StreamInfoDownloader_new []) (take 5 startFailureLifetime)))
         (Finished ProcessDumpJson 1 NormalExit [] []))) = 1
   \<and> purgeStarts (snd (run fromJson (StreamInfoDownloader_new []) startFailureLifetime)) = 2
   \<and> doneCount (snd (run fromJson (StreamInfoDownloader_new []) startFailureLifetime)) = 0"
  by (simp add: startFailureLifetime_def life_eval onError_def)

end
